theory Spec2Isabelle
  imports Main "HOL-Library.Sublist"
begin

section \<open>Strings\<close>

text \<open>
  JavaScript strings are modelled as HOL strings. The functions of the platform the
  program calls are parameters of the model, one record for all of them:
  \<open>new Date(s)\<close> as \<open>parseDate\<close> (the time value in milliseconds, or \<open>None\<close> for an invalid
  date), \<open>s.toLowerCase()\<close> and \<open>s.trim()\<close>. Every theorem below holds for every such
  platform.
\<close>

record platform =
  parseDate :: "string \<Rightarrow> int option"
  toLowerCase :: "string \<Rightarrow> string"
  trim :: "string \<Rightarrow> string"

text \<open>\<open>text.includes(k)\<close>: some suffix of the text starts with \<open>k\<close>.\<close>

fun includesStr :: "string \<Rightarrow> string \<Rightarrow> bool" where
  "includesStr [] k = (k = [])"
| "includesStr (c # cs) k = (prefix k (c # cs) \<or> includesStr cs k)"

text \<open>\<open>parts.join(sep)\<close>.\<close>

fun join :: "string \<Rightarrow> string list \<Rightarrow> string" where
  "join sep [] = []"
| "join sep [x] = x"
| "join sep (x # y # ys) = x @ sep @ join sep (y # ys)"

text \<open>\<open>str.replace(/"/g, '""')\<close>: every double quote (character 0x22) is doubled.\<close>

definition dquote :: char where
  "dquote = CHR 0x22"

fun replaceQuotes :: "string \<Rightarrow> string" where
  "replaceQuotes [] = []"
| "replaceQuotes (c # cs) =
     (if c = dquote then dquote # dquote # replaceQuotes cs else c # replaceQuotes cs)"

text \<open>Truthiness of an optional string: absent and the empty string are falsy.\<close>

fun truthyStr :: "string option \<Rightarrow> bool" where
  "truthyStr None = False"
| "truthyStr (Some s) = (s \<noteq> [])"

text \<open>\<open>x || ""\<close> on an optional string.\<close>

fun orEmpty :: "string option \<Rightarrow> string" where
  "orEmpty None = []"
| "orEmpty (Some s) = s"

section \<open>Data model\<close>

text \<open>
  The configuration document \<open>config.json\<close>. Every search category may be absent, and
  so may the target count.
\<close>

record config =
  intitleKeywords :: "string list option"
  "keywords" :: "string list option"
  domains :: "string list option"
  locations :: "string list option"
  minDate :: "string option"
  avoidKeywords :: "string list option"
  maxResults :: "int option"

text \<open>One entry of \<open>item.pagemap.metatags\<close>, with the two keys the program reads.\<close>

record metatag =
  article_published_time :: "string option"
  og_published_time :: "string option"

text \<open>A search result as the endpoint serves it.\<close>

record item =
  title :: "string option"
  link :: "string option"
  metatags :: "metatag list option"

text \<open>A record of the output log.\<close>

record result =
  Title :: string
  URL :: string

text \<open>
  The answer to one page request: the request or the decoding of its body fails, or there
  is a body with an optional item list and an optional \<open>queries.nextPage\<close> array whose
  entries carry an optional \<open>startIndex\<close>.
\<close>

datatype response = Failure | Data "item list option" "int option list option"

text \<open>
  The remote endpoint: the answer to the \<open>k\<close>-th request of a run, asked with a given
  start offset.
\<close>

type_synonym remote = "nat \<Rightarrow> int \<Rightarrow> response"

datatype error = TypeError

text \<open>
  What a fetch loop returns, with two ghost fields: the start offsets requested, in order,
  and the statement of the loop that ended it.
\<close>

datatype exit = TargetReached | NoItems | NoNextPage | OffsetCeiling | FetchFailed

record 'a outcome =
  results :: "'a list"
  requests :: "int list"
  exitBy :: exit

section \<open>Query builder\<close>

definition quoted :: "string \<Rightarrow> string" where
  "quoted k = dquote # k @ [dquote]"

definition siteTerm :: "string \<Rightarrow> string" where
  "siteTerm d = ''site:'' @ d"

definition nonEmptyList :: "string list option \<Rightarrow> bool" where
  "nonEmptyList xs = (case xs of None \<Rightarrow> False | Some l \<Rightarrow> length l > 0)"

text \<open>\<open>buildQuery\<close> of googleSearch.js (the one of part_001 is the same function).\<close>

definition buildQuery :: "config \<Rightarrow> string" where
  "buildQuery c =
     (let intitlePart =
            (if nonEmptyList (intitleKeywords c)
             then ''intitle:('' @ join '' OR '' (map quoted (the (intitleKeywords c))) @ '')''
             else []);
          keywordsPart =
            (if nonEmptyList (keywords c)
             then ''('' @ join '' OR '' (map quoted (the (keywords c))) @ '')''
             else []);
          domainsPart =
            (if nonEmptyList (domains c)
             then ''('' @ join '' OR '' (map siteTerm (the (domains c))) @ '')''
             else []);
          locationsPart =
            (if nonEmptyList (locations c)
             then ''('' @ join '' OR '' (map quoted (the (locations c))) @ '')''
             else []);
          excludePart =
            (if nonEmptyList (avoidKeywords c)
             then ''-('' @ join '' OR '' (map quoted (the (avoidKeywords c))) @ '')''
             else []);
          datePart = (if truthyStr (minDate c) then ''after:'' @ the (minDate c) else [])
      in join '' ''
           (filter (\<lambda>p. p \<noteq> [])
              [intitlePart, keywordsPart, domainsPart, locationsPart, excludePart, datePart]))"

text \<open>
  The query in the specification's words: one clause per non-empty category, in the fixed
  order, and nothing for an empty or absent one. A list category is the operator prefix and
  a parenthesized OR-group of its terms; the minimum date is one \<open>after:\<close> token.
\<close>

definition clause :: "string \<Rightarrow> (string \<Rightarrow> string) \<Rightarrow> string list option \<Rightarrow> string list" where
  "clause pre f xs =
     (case xs of
        None \<Rightarrow> []
      | Some l \<Rightarrow> if l = [] then [] else [pre @ ''('' @ join '' OR '' (map f l) @ '')''])"

definition dateClause :: "string option \<Rightarrow> string list" where
  "dateClause d = (case d of None \<Rightarrow> [] | Some s \<Rightarrow> if s = [] then [] else [''after:'' @ s])"

definition queryClauses :: "config \<Rightarrow> string list" where
  "queryClauses c =
     clause ''intitle:'' quoted (intitleKeywords c)
     @ clause [] quoted (keywords c)
     @ clause [] siteTerm (domains c)
     @ clause [] quoted (locations c)
     @ clause ''-'' quoted (avoidKeywords c)
     @ dateClause (minDate c)"

text \<open>
  \<open>buildQuery\<close> of part_002, the four-category builder: it has no test for an empty list,
  and \<open>map\<close> on an absent list raises.
\<close>

definition quoteJoin :: "string list \<Rightarrow> string" where
  "quoteJoin arr = ''('' @ join '' OR '' (map quoted arr) @ '')''"

definition buildQuery4 :: "config \<Rightarrow> error + string" where
  "buildQuery4 c =
     (if keywords c = None \<or> domains c = None \<or> locations c = None then Inl TypeError
      else
        (let keywordsPart = quoteJoin (the (keywords c));
             domainsPart =
               ''('' @ join '' OR '' (map siteTerm (the (domains c))) @ '')'';
             locationsPart = quoteJoin (the (locations c));
             datePart = (if truthyStr (minDate c) then ''after:'' @ the (minDate c) else [])
         in Inr (join '' ''
                   (filter (\<lambda>p. p \<noteq> [])
                      [keywordsPart, domainsPart, locationsPart, datePart]))))"

section \<open>Filter predicates\<close>

definition normalizeUrl :: "platform \<Rightarrow> string \<Rightarrow> string" where
  "normalizeUrl pf url = toLowerCase pf (trim pf url)"

text \<open>\<open>avoidKeywords.some(keyword => text.toLowerCase().includes(keyword.toLowerCase()))\<close>.\<close>

definition containsAvoidKeyword :: "platform \<Rightarrow> string \<Rightarrow> string list \<Rightarrow> bool" where
  "containsAvoidKeyword pf text kws =
     list_ex (\<lambda>keyword. includesStr (toLowerCase pf text) (toLowerCase pf keyword)) kws"

text \<open>The call sites pass \<open>config.avoidKeywords\<close>; \<open>some\<close> on an absent list raises.\<close>

definition avoidCheck :: "platform \<Rightarrow> config \<Rightarrow> string \<Rightarrow> error + bool" where
  "avoidCheck pf cfg text =
     (case avoidKeywords cfg of None \<Rightarrow> Inl TypeError
      | Some kws \<Rightarrow> Inr (containsAvoidKeyword pf text kws))"

text \<open>
  \<open>getPublishedDate\<close>: the first tag with a non-empty \<open>article:published_time\<close> or
  \<open>og:published_time\<close> decides; \<open>None\<close> is the source's \<open>null\<close>, and \<open>Some None\<close> is an
  invalid date.
\<close>

fun firstPublished :: "platform \<Rightarrow> metatag list \<Rightarrow> int option option" where
  "firstPublished pf [] = None"
| "firstPublished pf (t # ts) =
     (if truthyStr (article_published_time t) then Some (parseDate pf (the (article_published_time t)))
      else if truthyStr (og_published_time t) then Some (parseDate pf (the (og_published_time t)))
      else firstPublished pf ts)"

definition getPublishedDate :: "platform \<Rightarrow> item \<Rightarrow> int option option" where
  "getPublishedDate pf it =
     (case metatags it of None \<Rightarrow> None | Some meta \<Rightarrow> firstPublished pf meta)"

text \<open>\<open>config.minDate ? new Date(config.minDate) : null\<close>.\<close>

definition minDateObj :: "platform \<Rightarrow> config \<Rightarrow> int option option" where
  "minDateObj pf cfg = (if truthyStr (minDate cfg) then Some (parseDate pf (the (minDate cfg))) else None)"

text \<open>\<open>a < b\<close> on two dates: false when either is invalid.\<close>

fun dateLess :: "int option \<Rightarrow> int option \<Rightarrow> bool" where
  "dateLess (Some a) (Some b) = (a < b)"
| "dateLess _ _ = False"

text \<open>
  The date test both variants share:
  \<open>if (minDateObj) { const p = getPublishedDate(item); if (p && p < minDateObj) reject }\<close>.
\<close>

definition rejectedByDate :: "platform \<Rightarrow> config \<Rightarrow> item \<Rightarrow> bool" where
  "rejectedByDate pf cfg it =
     (case minDateObj pf cfg of None \<Rightarrow> False
      | Some m \<Rightarrow> (case getPublishedDate pf it of None \<Rightarrow> False | Some p \<Rightarrow> dateLess p m))"

section \<open>The incremental fetch of part_001\<close>

definition itemTitle :: "item \<Rightarrow> string" where
  "itemTitle it = orEmpty (title it)"

definition itemUrl :: "item \<Rightarrow> string" where
  "itemUrl it = orEmpty (link it)"

definition toResult :: "item \<Rightarrow> result" where
  "toResult it = \<lparr>Title = itemTitle it, URL = itemUrl it\<rparr>"

text \<open>
  \<open>newResults.length < maxNewResults\<close> and \<open>newResults.length >= maxNewResults\<close>, where
  \<open>maxNewResults\<close> is \<open>config.maxResults\<close>: against \<open>undefined\<close> both comparisons are false.
\<close>

definition belowTarget :: "nat \<Rightarrow> int option \<Rightarrow> bool" where
  "belowTarget n m = (case m of None \<Rightarrow> False | Some t \<Rightarrow> int n < t)"

definition atTarget :: "nat \<Rightarrow> int option \<Rightarrow> bool" where
  "atTarget n m = (case m of None \<Rightarrow> False | Some t \<Rightarrow> t \<le> int n)"

text \<open>
  The \<open>for\<close> loop over the items of one page. Each \<open>continue\<close> goes on with the accumulator
  unchanged; the \<open>break\<close> after a push returns at once.
\<close>

fun processPage ::
  "platform \<Rightarrow> config \<Rightarrow> string set \<Rightarrow> item list \<Rightarrow> result list \<Rightarrow> error + result list"
where
  "processPage pf cfg S [] newResults = Inr newResults"
| "processPage pf cfg S (it # its) newResults =
     (if normalizeUrl pf (itemUrl it) \<in> S then processPage pf cfg S its newResults
      else if list_ex (\<lambda>r. normalizeUrl pf (URL r) = normalizeUrl pf (itemUrl it)) newResults
        then processPage pf cfg S its newResults
      else
        (case avoidCheck pf cfg (itemTitle it) of
           Inl e \<Rightarrow> Inl e
         | Inr avoided \<Rightarrow>
             if avoided then processPage pf cfg S its newResults
             else if rejectedByDate pf cfg it then processPage pf cfg S its newResults
             else if atTarget (Suc (length newResults)) (maxResults cfg)
               then Inr (newResults @ [toResult it])
             else processPage pf cfg S its (newResults @ [toResult it])))"

text \<open>
  One step of \<open>processPage\<close>: an item passes when its normalized URL is neither processed
  nor collected in this run, its title has no avoid-keyword and the date test lets it
  through; the step raises when the avoid-keyword test is reached without a keyword list.
\<close>

definition passes :: "platform \<Rightarrow> config \<Rightarrow> string set \<Rightarrow> result list \<Rightarrow> item \<Rightarrow> bool" where
  "passes pf cfg S acc it \<longleftrightarrow>
     normalizeUrl pf (itemUrl it) \<notin> S
     \<and> \<not> list_ex (\<lambda>r. normalizeUrl pf (URL r) = normalizeUrl pf (itemUrl it)) acc
     \<and> avoidCheck pf cfg (itemTitle it) = Inr False
     \<and> \<not> rejectedByDate pf cfg it"

definition raises :: "platform \<Rightarrow> config \<Rightarrow> string set \<Rightarrow> result list \<Rightarrow> item \<Rightarrow> bool" where
  "raises pf cfg S acc it \<longleftrightarrow>
     normalizeUrl pf (itemUrl it) \<notin> S
     \<and> \<not> list_ex (\<lambda>r. normalizeUrl pf (URL r) = normalizeUrl pf (itemUrl it)) acc
     \<and> avoidKeywords cfg = None"

text \<open>
  \<open>data.queries && data.queries.nextPage && data.queries.nextPage[0].startIndex\<close>: no hint
  when the array is absent or its first entry has no (or a zero) \<open>startIndex\<close>; reading the
  first entry of an empty array raises.
\<close>

datatype hint = NoHint | Hint int | BadHint

definition nextStart :: "int option list option \<Rightarrow> hint" where
  "nextStart np =
     (case np of
        None \<Rightarrow> NoHint
      | Some ps \<Rightarrow>
          (case ps of
             [] \<Rightarrow> BadHint
           | p # _ \<Rightarrow> (case p of None \<Rightarrow> NoHint | Some n \<Rightarrow> if n = 0 then NoHint else Hint n)))"

definition noItems :: "item list option \<Rightarrow> bool" where
  "noItems its = (case its of None \<Rightarrow> True | Some l \<Rightarrow> length l = 0)"

text \<open>
  The \<open>while\<close> loop of \<open>fetchNewResults\<close>. The fuel bounds the number of page requests:
  \<open>None\<close> means that the loop has not returned within it. An exception that leaves the
  function is \<open>Inl\<close>.
\<close>

fun fetchNewResults_loop ::
  "nat \<Rightarrow> remote \<Rightarrow> platform \<Rightarrow> config \<Rightarrow> string set \<Rightarrow> nat \<Rightarrow> int \<Rightarrow> result list \<Rightarrow> int list
     \<Rightarrow> (error + result outcome) option"
where
  "fetchNewResults_loop 0 rm pf cfg S k startIndex newResults reqs =
     (if \<not> belowTarget (length newResults) (maxResults cfg)
      then Some (Inr \<lparr>results = newResults, requests = reqs, exitBy = TargetReached\<rparr>)
      else None)"
| "fetchNewResults_loop (Suc fuel) rm pf cfg S k startIndex newResults reqs =
     (if \<not> belowTarget (length newResults) (maxResults cfg)
      then Some (Inr \<lparr>results = newResults, requests = reqs, exitBy = TargetReached\<rparr>)
      else
        (case rm k startIndex of
           Failure \<Rightarrow>
             Some (Inr \<lparr>results = newResults, requests = reqs @ [startIndex],
                         exitBy = FetchFailed\<rparr>)
         | Data its np \<Rightarrow>
             if noItems its
             then Some (Inr \<lparr>results = newResults, requests = reqs @ [startIndex],
                              exitBy = NoItems\<rparr>)
             else
               (case processPage pf cfg S (the its) newResults of
                  Inl e \<Rightarrow> Some (Inl e)
                | Inr acc \<Rightarrow>
                    if atTarget (length acc) (maxResults cfg)
                    then Some (Inr \<lparr>results = acc, requests = reqs @ [startIndex],
                                     exitBy = TargetReached\<rparr>)
                    else
                      (case nextStart np of
                         NoHint \<Rightarrow>
                           Some (Inr \<lparr>results = acc, requests = reqs @ [startIndex],
                                       exitBy = NoNextPage\<rparr>)
                       | BadHint \<Rightarrow> Some (Inl TypeError)
                       | Hint n \<Rightarrow>
                           if n > 91
                           then Some (Inr \<lparr>results = acc, requests = reqs @ [startIndex],
                                            exitBy = OffsetCeiling\<rparr>)
                           else fetchNewResults_loop fuel rm pf cfg S (Suc k) n acc
                                  (reqs @ [startIndex])))))"

definition fetchNewResults ::
  "nat \<Rightarrow> remote \<Rightarrow> platform \<Rightarrow> config \<Rightarrow> string set \<Rightarrow> (error + result outcome) option"
where
  "fetchNewResults fuel rm pf cfg S = fetchNewResults_loop fuel rm pf cfg S 0 1 [] []"

section \<open>The fetch-all variant of googleSearch.js\<close>

text \<open>\<open>config.maxResults || Infinity\<close>: \<open>None\<close> is \<open>Infinity\<close>; an absent and a zero target give it.\<close>

definition maxAll :: "config \<Rightarrow> int option" where
  "maxAll cfg = (case maxResults cfg of None \<Rightarrow> None | Some n \<Rightarrow> if n = 0 then None else Some n)"

text \<open>\<open>allItems.length >= maxResults\<close>.\<close>

definition reached :: "nat \<Rightarrow> int option \<Rightarrow> bool" where
  "reached n m = (case m of None \<Rightarrow> False | Some t \<Rightarrow> t \<le> int n)"

text \<open>
  The \<open>while (true)\<close> loop of \<open>fetchAllResults\<close> (the one of part_002 is the same function).
  The whole body is inside \<open>try\<close>, so the exception of an empty \<open>nextPage\<close> array ends the
  loop like a failed request, after the items of the page were pushed.
\<close>

fun fetchAllResults_loop ::
  "nat \<Rightarrow> remote \<Rightarrow> config \<Rightarrow> nat \<Rightarrow> int \<Rightarrow> item list \<Rightarrow> int list \<Rightarrow> item outcome option"
where
  "fetchAllResults_loop 0 rm cfg k startIndex allItems reqs =
     (if reached (length allItems) (maxAll cfg)
      then Some \<lparr>results = allItems, requests = reqs, exitBy = TargetReached\<rparr>
      else None)"
| "fetchAllResults_loop (Suc fuel) rm cfg k startIndex allItems reqs =
     (if reached (length allItems) (maxAll cfg)
      then Some \<lparr>results = allItems, requests = reqs, exitBy = TargetReached\<rparr>
      else
        (case rm k startIndex of
           Failure \<Rightarrow>
             Some \<lparr>results = allItems, requests = reqs @ [startIndex], exitBy = FetchFailed\<rparr>
         | Data its np \<Rightarrow>
             if noItems its
             then Some \<lparr>results = allItems, requests = reqs @ [startIndex], exitBy = NoItems\<rparr>
             else if reached (length (allItems @ the its)) (maxAll cfg)
             then Some \<lparr>results = take (nat (the (maxAll cfg))) (allItems @ the its),
                         requests = reqs @ [startIndex], exitBy = TargetReached\<rparr>
             else
               (case nextStart np of
                  NoHint \<Rightarrow>
                    Some \<lparr>results = allItems @ the its, requests = reqs @ [startIndex],
                          exitBy = NoNextPage\<rparr>
                | BadHint \<Rightarrow>
                    Some \<lparr>results = allItems @ the its, requests = reqs @ [startIndex],
                          exitBy = FetchFailed\<rparr>
                | Hint n \<Rightarrow>
                    if n > 91
                    then Some \<lparr>results = allItems @ the its, requests = reqs @ [startIndex],
                               exitBy = OffsetCeiling\<rparr>
                    else fetchAllResults_loop fuel rm cfg (Suc k) n (allItems @ the its)
                           (reqs @ [startIndex]))))"

definition fetchAllResults :: "nat \<Rightarrow> remote \<Rightarrow> config \<Rightarrow> item outcome option" where
  "fetchAllResults fuel rm cfg = fetchAllResults_loop fuel rm cfg 0 1 [] []"

text \<open>The \<open>reduce\<close> of \<open>main\<close>: avoid-keywords, then the date, on every raw item.\<close>

fun filterItems :: "platform \<Rightarrow> config \<Rightarrow> item list \<Rightarrow> result list \<Rightarrow> error + result list" where
  "filterItems pf cfg [] acc = Inr acc"
| "filterItems pf cfg (it # its) acc =
     (case avoidCheck pf cfg (itemTitle it) of
        Inl e \<Rightarrow> Inl e
      | Inr avoided \<Rightarrow>
          if avoided then filterItems pf cfg its acc
          else if rejectedByDate pf cfg it then filterItems pf cfg its acc
          else filterItems pf cfg its (acc @ [toResult it]))"

text \<open>
  The records \<open>main\<close> of googleSearch.js hands to \<open>appendToCSV\<close>:
  \<open>filteredResults.filter(result => !processedUrls.has(result.URL))\<close>.
\<close>

definition mainNewResults ::
  "nat \<Rightarrow> remote \<Rightarrow> platform \<Rightarrow> config \<Rightarrow> string set \<Rightarrow> (error + result list) option"
where
  "mainNewResults fuel rm pf cfg S =
     (case fetchAllResults fuel rm cfg of
        None \<Rightarrow> None
      | Some out \<Rightarrow>
          Some (case filterItems pf cfg (results out) [] of
                  Inl e \<Rightarrow> Inl e
                | Inr filteredResults \<Rightarrow> Inr (filter (\<lambda>r. URL r \<notin> S) filteredResults)))"

section \<open>Persistence helpers\<close>

definition escapeCSV :: "string \<Rightarrow> string" where
  "escapeCSV str = dquote # replaceQuotes str @ [dquote]"

definition csvRow :: "result \<Rightarrow> string" where
  "csvRow r = escapeCSV (Title r) @ '','' @ escapeCSV (URL r) @ [CHR 0x0A]"

definition header :: string where
  "header = ''Title,URL'' @ [CHR 0x0A]"

text \<open>
  \<open>appendToCSV\<close>. \<open>appendedText\<close> is the \<open>csvData\<close> handed to \<open>appendFileSync\<close>. The
  output file is \<open>None\<close> when it does not exist; the function returns the file after
  \<open>appendFileSync\<close>, which creates a missing file.
\<close>

definition appendedText :: "bool \<Rightarrow> result list \<Rightarrow> string" where
  "appendedText fileExists rs =
     (if \<not> fileExists then header @ concat (map csvRow rs) else concat (map csvRow rs))"

definition appendToCSV :: "string option \<Rightarrow> result list \<Rightarrow> string option" where
  "appendToCSV file rs =
     Some ((case file of None \<Rightarrow> [] | Some old \<Rightarrow> old) @ appendedText (file \<noteq> None) rs)"

section \<open>Properties of a run\<close>


text \<open>The answer to the last request of a run.\<close>

definition lastAnswer :: "remote \<Rightarrow> 'a outcome \<Rightarrow> response" where
  "lastAnswer rm out = rm (length (requests out) - 1) (last (requests out))"

text \<open>
  The run was ended by the answer to its last request: the request failed, or the page had
  no items, or it had no next-page hint, or the hint was beyond the ceiling of 91 (or, for
  the fetch-all loop, reading the hint raised inside \<open>try\<close>).
\<close>

definition endedByAnswer :: "remote \<Rightarrow> 'a outcome \<Rightarrow> bool" where
  "endedByAnswer rm out \<longleftrightarrow>
     requests out \<noteq> []
     \<and> (case lastAnswer rm out of
          Failure \<Rightarrow> exitBy out = FetchFailed
        | Data its np \<Rightarrow>
            if noItems its then exitBy out = NoItems
            else (case nextStart np of
                    NoHint \<Rightarrow> exitBy out = NoNextPage
                  | Hint n \<Rightarrow> exitBy out = OffsetCeiling \<and> n > 91
                  | BadHint \<Rightarrow> exitBy out = FetchFailed))"

text \<open>
  The two tests both variants apply to an item by itself (avoid-keywords, then the date),
  and the records of the items of a list that pass them and whose URL is not in the
  processed set.
\<close>

definition keeps :: "platform \<Rightarrow> config \<Rightarrow> item \<Rightarrow> bool" where
  "keeps pf cfg it \<longleftrightarrow> avoidCheck pf cfg (itemTitle it) = Inr False \<and> \<not> rejectedByDate pf cfg it"

definition accepted :: "platform \<Rightarrow> config \<Rightarrow> string set \<Rightarrow> item list \<Rightarrow> result list" where
  "accepted pf cfg S its = map toResult (filter (\<lambda>it. itemUrl it \<notin> S \<and> keeps pf cfg it) its)"

text \<open>Every \<open>nextPage\<close> array the endpoint sends has a first entry.\<close>

definition wellFormed :: "remote \<Rightarrow> bool" where
  "wellFormed rm \<longleftrightarrow> (\<forall>k s its np. rm k s = Data its np \<longrightarrow> nextStart np \<noteq> BadHint)"

text \<open>The configuration without its target count.\<close>

definition withoutTarget :: "config \<Rightarrow> config" where
  "withoutTarget cfg = cfg\<lparr>maxResults := None\<rparr>"

text \<open>
  The endpoint \<open>rm\<close> with its \<open>n\<close>-th answer replaced by a failure, and by a page
  without items; and what a run hands back to its caller: the records, or the exception.
\<close>

definition failingAt :: "nat \<Rightarrow> remote \<Rightarrow> remote" where
  "failingAt n rm k s = (if k = n then Failure else rm k s)"

definition emptyAt :: "nat \<Rightarrow> remote \<Rightarrow> remote" where
  "emptyAt n rm k s = (if k = n then Data None None else rm k s)"

definition returned :: "(error + 'a outcome) option \<Rightarrow> (error + 'a list) option" where
  "returned r = map_option (map_sum id results) r"

section \<open>Example inputs\<close>


text \<open>The configuration of the README.\<close>

definition exampleConfig :: config where
  "exampleConfig =
     \<lparr>intitleKeywords = Some [''frontend developer''],
      keywords = Some [''experienced'', ''senior''],
      domains = Some [''workday.com'', ''icims.com''],
      locations = Some [''Remote'', ''USA''],
      minDate = Some ''2025-01-01'',
      avoidKeywords = Some [''government clearance''],
      maxResults = Some 10\<rparr>"

definition noTargetConfig :: config where
  "noTargetConfig = exampleConfig\<lparr>maxResults := None\<rparr>"

text \<open>
  The platform of the examples. Its date parser knows the dates of the examples (UTC, in
  ms) and takes every other string for an invalid date; its \<open>toLowerCase\<close> maps A-Z to
  a-z and its \<open>trim\<close> strips tab, line feed, vertical tab, form feed, carriage return and
  space from both ends, which is what JavaScript computes on the strings of the
  examples (ASCII text, and one dash, which has no case).
\<close>

definition isoDates :: "string \<Rightarrow> int option" where
  "isoDates s =
     (if s = ''2024-12-01'' then Some 1733011200000
      else if s = ''2025-01-01'' then Some 1735689600000
      else None)"

definition lowerChar :: "char \<Rightarrow> char" where
  "lowerChar c =
     (let n = (of_char c :: nat) in if 65 \<le> n \<and> n \<le> 90 then char_of (n + 32) else c)"

definition asciiLower :: "string \<Rightarrow> string" where
  "asciiLower s = map lowerChar s"

definition isSpace :: "char \<Rightarrow> bool" where
  "isSpace c = (let n = (of_char c :: nat) in (9 \<le> n \<and> n \<le> 13) \<or> n = 32)"

definition asciiTrim :: "string \<Rightarrow> string" where
  "asciiTrim s = rev (dropWhile isSpace (rev (dropWhile isSpace s)))"

definition examplePlatform :: platform where
  "examplePlatform = \<lparr>parseDate = isoDates, toLowerCase = asciiLower, trim = asciiTrim\<rparr>"

definition oldItem :: item where
  "oldItem =
     \<lparr>title = Some ''Frontend Developer'', link = Some ''https://jobs.example.com/1'',
      metatags =
        Some [\<lparr>article_published_time = Some ''2024-12-01'', og_published_time = None\<rparr>]\<rparr>"

definition undatedItem :: item where
  "undatedItem =
     \<lparr>title = Some ''Frontend Developer'', link = Some ''https://jobs.example.com/2'',
      metatags = None\<rparr>"

text \<open>An endpoint whose every answer is one page with one item and no next-page hint.\<close>

definition onePage :: remote where
  "onePage k s = Data (Some [undatedItem]) None"

text \<open>An endpoint whose every request fails.\<close>

definition failingRemote :: remote where
  "failingRemote k s = Failure"

text \<open>The processed-URL set of the examples.\<close>

definition seenUrls :: "string set" where
  "seenUrls = {''https://jobs.example.com/1''}"

text \<open>
  An item whose URL differs from the processed one only in the case of its letters and in
  blanks around it.
\<close>

definition shoutedItem :: item where
  "shoutedItem =
     \<lparr>title = Some ''Frontend Developer'', link = Some ''  HTTPS://Jobs.Example.com/1 '',
      metatags = None\<rparr>"

definition otherItem :: item where
  "otherItem =
     \<lparr>title = Some ''Senior Engineer'', link = Some ''https://jobs.example.com/3'',
      metatags = None\<rparr>"

text \<open>An endpoint whose every answer is the same page of three items, with no hint.\<close>

definition mixedPage :: remote where
  "mixedPage k s = Data (Some [shoutedItem, undatedItem, otherItem]) None"

definition targetOne :: config where
  "targetOne = exampleConfig\<lparr>maxResults := Some 1\<rparr>"

text \<open>A configuration with an empty keyword list.\<close>

definition emptyKeywordsConfig :: config where
  "emptyKeywordsConfig = exampleConfig\<lparr>keywords := Some []\<rparr>"


text \<open>An endpoint that serves one new item per page and hints ten further each time.\<close>

definition tenFurther :: remote where
  "tenFurther k s = Data (Some [undatedItem]) (Some [Some (s + 10)])"

text \<open>
  An endpoint whose page has a processed item (served in normalized form) and two new
  ones, and one whose page repeats a URL under another title.
\<close>

definition plainPage :: remote where
  "plainPage k s = Data (Some [oldItem, undatedItem, otherItem]) None"

definition retitledItem :: item where
  "retitledItem =
     \<lparr>title = Some ''Frontend Developer (remote)'', link = Some ''https://jobs.example.com/2'',
      metatags = None\<rparr>"

definition repeatedPage :: remote where
  "repeatedPage k s = Data (Some [undatedItem, retitledItem]) None"

text \<open>An item whose date tag cannot be parsed, and one published on the minimum date.\<close>

definition garbledItem :: item where
  "garbledItem =
     \<lparr>title = Some ''Frontend Developer'', link = Some ''https://jobs.example.com/4'',
      metatags =
        Some [\<lparr>article_published_time = None, og_published_time = Some ''last week''\<rparr>]\<rparr>"

definition newYearItem :: item where
  "newYearItem =
     \<lparr>title = Some ''Frontend Developer'', link = Some ''https://jobs.example.com/5'',
      metatags =
        Some [\<lparr>article_published_time = Some ''2025-01-01'', og_published_time = None\<rparr>]\<rparr>"

text \<open>The record of the specification's CSV example, and an output file with one row.\<close>

definition quotedDev :: result where
  "quotedDev =
     \<lparr>Title = ''Senior '' @ [dquote] @ ''Frontend'' @ [dquote] @ '' Dev'',
      URL = ''https://jobs.example.com/2''\<rparr>"

definition oldFile :: string where
  "oldFile =
     ''Title,URL'' @ [CHR 0x0A] @ [dquote] @ ''Dev'' @ [dquote] @ '','' @ [dquote]
       @ ''https://jobs.example.com/1'' @ [dquote] @ [CHR 0x0A]"

text \<open>
  A processed item that passes the other tests, and an endpoint whose page starts with it.
\<close>

definition seenItem :: item where
  "seenItem =
     \<lparr>title = Some ''Frontend Developer'', link = Some ''https://jobs.example.com/1'',
      metatags = None\<rparr>"

definition seenFirstPage :: remote where
  "seenFirstPage k s = Data (Some [seenItem, undatedItem, otherItem]) None"

section \<open>Avoid-keyword matching\<close>






section \<open>CSV serialisation\<close>

lemma replaceQuotes_concat:
  "replaceQuotes s = concat (map (\<lambda>c. if c = dquote then [dquote, dquote] else [c]) s)"
  by (induction s) simp_all

lemma csvRows_not_header: "\<not> prefix header (concat (map csvRow rs))"
proof (cases rs)
  case Nil
  then show ?thesis by (simp add: header_def)
next
  case (Cons r rest)
  have "dquote \<noteq> CHR ''T''" by (simp add: dquote_def)
  then show ?thesis using Cons by (simp add: header_def csvRow_def escapeCSV_def)
qed

text \<open>
  C9. A field is written between double quotes with every double quote inside it doubled
  (the specification's example included). The row of a record is its title and its URL,
  each written so, separated by a comma and ended by a line feed. Appending to a file
  that does not exist writes the header row \<open>Title,URL\<close> and then the rows of the records,
  in order; appending to an existing file adds the rows after its old content, without a
  header: the text appended starts with the header row exactly when the file did not
  exist.
\<close>

theorem appendToCSV_escaping_and_header:
  "escapeCSV s =
     [dquote] @ concat (map (\<lambda>c. if c = dquote then [dquote, dquote] else [c]) s) @ [dquote]
   \<and> escapeCSV (''Senior '' @ [dquote] @ ''Frontend'' @ [dquote] @ '' Dev'') =
       [dquote] @ ''Senior '' @ [dquote, dquote] @ ''Frontend'' @ [dquote, dquote] @ '' Dev''
         @ [dquote]
   \<and> csvRow r = escapeCSV (Title r) @ '','' @ escapeCSV (URL r) @ [CHR 0x0A]
   \<and> header = ''Title,URL'' @ [CHR 0x0A]
   \<and> appendToCSV None rs =
       Some (''Title,URL'' @ [CHR 0x0A]
             @ concat (map (\<lambda>r. escapeCSV (Title r) @ '','' @ escapeCSV (URL r) @ [CHR 0x0A]) rs))
   \<and> appendToCSV (Some old) rs =
       Some (old
             @ concat (map (\<lambda>r. escapeCSV (Title r) @ '','' @ escapeCSV (URL r) @ [CHR 0x0A]) rs))
   \<and> (prefix (''Title,URL'' @ [CHR 0x0A]) (appendedText fileExists rs) \<longleftrightarrow> \<not> fileExists)"
proof -
  have 1: "escapeCSV s =
      [dquote] @ concat (map (\<lambda>c. if c = dquote then [dquote, dquote] else [c]) s) @ [dquote]"
    by (simp add: escapeCSV_def replaceQuotes_concat)
  have 2: "escapeCSV (''Senior '' @ [dquote] @ ''Frontend'' @ [dquote] @ '' Dev'') =
       [dquote] @ ''Senior '' @ [dquote, dquote] @ ''Frontend'' @ [dquote, dquote] @ '' Dev''
         @ [dquote]"
    by (simp add: escapeCSV_def dquote_def)
  have 3: "csvRow r = escapeCSV (Title r) @ '','' @ escapeCSV (URL r) @ [CHR 0x0A]"
    by (simp add: csvRow_def)
  have 4: "header = ''Title,URL'' @ [CHR 0x0A]"
    by (simp add: header_def)
  have rows: "concat (map csvRow rs) =
      concat (map (\<lambda>r. escapeCSV (Title r) @ '','' @ escapeCSV (URL r) @ [CHR 0x0A]) rs)"
    by (induction rs) (simp_all add: csvRow_def)
  have 5: "appendToCSV None rs =
       Some (''Title,URL'' @ [CHR 0x0A]
             @ concat (map (\<lambda>r. escapeCSV (Title r) @ '','' @ escapeCSV (URL r) @ [CHR 0x0A]) rs))"
    unfolding rows [symmetric] by (simp add: appendToCSV_def appendedText_def header_def)
  have 6: "appendToCSV (Some old) rs =
       Some (old
             @ concat (map (\<lambda>r. escapeCSV (Title r) @ '','' @ escapeCSV (URL r) @ [CHR 0x0A]) rs))"
    unfolding rows [symmetric] by (simp add: appendToCSV_def appendedText_def)
  have 7: "prefix (''Title,URL'' @ [CHR 0x0A]) (appendedText fileExists rs) \<longleftrightarrow> \<not> fileExists"
    using csvRows_not_header [of rs] by (simp add: appendedText_def header_def)
  from 1 2 3 4 5 6 7 show ?thesis by blast
qed

text \<open>
  The record of the specification's example, appended to a missing file and to a file
  that has a row already.
\<close>

theorem appendToCSV_escaping_and_header_witness:
  "appendToCSV None [quotedDev] =
     Some (''Title,URL'' @ [CHR 0x0A] @ [dquote] @ ''Senior '' @ [dquote, dquote] @ ''Frontend''
           @ [dquote, dquote] @ '' Dev'' @ [dquote] @ '','' @ [dquote]
           @ ''https://jobs.example.com/2'' @ [dquote] @ [CHR 0x0A])
   \<and> appendToCSV (Some oldFile) [quotedDev] =
     Some (''Title,URL'' @ [CHR 0x0A] @ [dquote] @ ''Dev'' @ [dquote] @ '','' @ [dquote]
           @ ''https://jobs.example.com/1'' @ [dquote] @ [CHR 0x0A]
           @ [dquote] @ ''Senior '' @ [dquote, dquote] @ ''Frontend''
           @ [dquote, dquote] @ '' Dev'' @ [dquote] @ '','' @ [dquote]
           @ ''https://jobs.example.com/2'' @ [dquote] @ [CHR 0x0A])"
  using appendToCSV_escaping_and_header [where rs = "[quotedDev]" and old = oldFile]
  by (simp add: escapeCSV_def quotedDev_def oldFile_def dquote_def)

section \<open>Date filtering\<close>

lemma processPage_date_reject:
  "rejectedByDate pf cfg it \<Longrightarrow> processPage pf cfg S [it] acc \<noteq> Inr (acc @ [toResult it])"
  by (simp split: sum.splits)

lemma filterItems_date_reject:
  "rejectedByDate pf cfg it \<Longrightarrow> filterItems pf cfg [it] acc \<noteq> Inr (acc @ [toResult it])"
  by (simp split: sum.splits)

lemma firstPublished_None:
  "firstPublished pf tags = None \<longleftrightarrow>
     (\<forall>t \<in> set tags. \<not> truthyStr (article_published_time t)
        \<and> \<not> truthyStr (og_published_time t))"
  by (induction tags) simp_all

lemma getPublishedDate_None:
  "getPublishedDate pf it = None \<longleftrightarrow>
     (metatags it = None
      \<or> (\<exists>tags. metatags it = Some tags
            \<and> (\<forall>t \<in> set tags. \<not> truthyStr (article_published_time t)
                  \<and> \<not> truthyStr (og_published_time t))))"
  by (cases "metatags it") (simp_all add: getPublishedDate_def firstPublished_None)

lemma rejectedByDate_iff:
  "rejectedByDate pf cfg it \<longleftrightarrow>
     (\<exists>m p. minDateObj pf cfg = Some (Some m) \<and> getPublishedDate pf it = Some (Some p) \<and> p < m)"
proof (cases "minDateObj pf cfg")
  case None
  then show ?thesis by (simp add: rejectedByDate_def)
next
  case (Some md)
  show ?thesis
  proof (cases "getPublishedDate pf it")
    case None
    with Some show ?thesis by (simp add: rejectedByDate_def)
  next
    case published: (Some p)
    show ?thesis
    proof (cases md)
      case None
      with Some published show ?thesis by (cases p) (simp_all add: rejectedByDate_def)
    next
      case m: (Some m)
      with Some published show ?thesis by (cases p) (simp_all add: rejectedByDate_def)
    qed
  qed
qed

text \<open>
  C7. An item is rejected by the date test exactly when a minimum date is configured and
  valid, the item's metadata gives a valid published date, and that date is strictly
  earlier than the minimum. No date is extracted exactly when the item has no metadata or
  none of its tags has a non-empty \<open>article:published_time\<close> or \<open>og:published_time\<close>. So an
  item from which no published date can be extracted (no date tag, or a tag that does not
  parse) is never rejected by the date test, whatever the minimum date, and neither is
  one published on the minimum date itself. An item the
  date test rejects is not accepted, in the incremental loop and in the filter of the
  fetch-all variant; an item it lets through is accepted when the other tests let it
  pass.
\<close>

theorem date_filter:
  "(rejectedByDate pf cfg it \<longleftrightarrow>
      (\<exists>m p. minDateObj pf cfg = Some (Some m) \<and> getPublishedDate pf it = Some (Some p)
         \<and> p < m))
   \<and> (getPublishedDate pf it = None \<longleftrightarrow>
        (metatags it = None
         \<or> (\<exists>tags. metatags it = Some tags
               \<and> (\<forall>t \<in> set tags. \<not> truthyStr (article_published_time t)
                     \<and> \<not> truthyStr (og_published_time t)))))
   \<and> (getPublishedDate pf it = None \<or> getPublishedDate pf it = Some None \<longrightarrow>
        \<not> rejectedByDate pf cfg it)
   \<and> (rejectedByDate pf cfg it \<longrightarrow>
        processPage pf cfg S [it] acc \<noteq> Inr (acc @ [toResult it])
        \<and> filterItems pf cfg [it] acc \<noteq> Inr (acc @ [toResult it]))
   \<and> (\<not> rejectedByDate pf cfg it \<and> avoidCheck pf cfg (itemTitle it) = Inr False \<longrightarrow>
        filterItems pf cfg [it] acc = Inr (acc @ [toResult it])
        \<and> (normalizeUrl pf (itemUrl it) \<notin> S
             \<and> \<not> list_ex (\<lambda>r. normalizeUrl pf (URL r) = normalizeUrl pf (itemUrl it)) acc \<longrightarrow>
             processPage pf cfg S [it] acc = Inr (acc @ [toResult it])))"
proof -
  note iff = rejectedByDate_iff [of pf cfg it]
  have none: "\<not> rejectedByDate pf cfg it"
    if "getPublishedDate pf it = None \<or> getPublishedDate pf it = Some None"
    using that iff by auto
  have rest: "(getPublishedDate pf it = None \<or> getPublishedDate pf it = Some None \<longrightarrow>
        \<not> rejectedByDate pf cfg it)
   \<and> (rejectedByDate pf cfg it \<longrightarrow>
        processPage pf cfg S [it] acc \<noteq> Inr (acc @ [toResult it])
        \<and> filterItems pf cfg [it] acc \<noteq> Inr (acc @ [toResult it]))
   \<and> (\<not> rejectedByDate pf cfg it \<and> avoidCheck pf cfg (itemTitle it) = Inr False \<longrightarrow>
        filterItems pf cfg [it] acc = Inr (acc @ [toResult it])
        \<and> (normalizeUrl pf (itemUrl it) \<notin> S
             \<and> \<not> list_ex (\<lambda>r. normalizeUrl pf (URL r) = normalizeUrl pf (itemUrl it)) acc \<longrightarrow>
             processPage pf cfg S [it] acc = Inr (acc @ [toResult it])))"
    using none processPage_date_reject [of pf cfg it S acc]
      filterItems_date_reject [of pf cfg it acc]
    by auto
  from iff getPublishedDate_None [of pf it] rest show ?thesis by blast
qed

lemma example_minDate: "minDateObj examplePlatform exampleConfig = Some (Some 1735689600000)"
  by code_simp

lemma example_published:
  "getPublishedDate examplePlatform oldItem = Some (Some 1733011200000)"
  "getPublishedDate examplePlatform undatedItem = None"
  "getPublishedDate examplePlatform garbledItem = Some None"
  "getPublishedDate examplePlatform newYearItem = Some (Some 1735689600000)"
  by code_simp+

lemma example_other_tests:
  "avoidCheck examplePlatform exampleConfig (itemTitle undatedItem) = Inr False"
  "avoidCheck examplePlatform exampleConfig (itemTitle garbledItem) = Inr False"
  "avoidCheck examplePlatform exampleConfig (itemTitle newYearItem) = Inr False"
  by code_simp+

text \<open>
  The specification's example: published 2024-12-01 against the minimum 2025-01-01 is
  rejected. An item without metadata, one whose date tag does not parse and one published
  on 2025-01-01 are accepted.
\<close>

theorem date_filter_witness:
  "minDateObj examplePlatform exampleConfig = Some (Some 1735689600000)
   \<and> getPublishedDate examplePlatform oldItem = Some (Some 1733011200000)
   \<and> rejectedByDate examplePlatform exampleConfig oldItem
   \<and> processPage examplePlatform exampleConfig {} [oldItem] [] \<noteq> Inr ([] @ [toResult oldItem])
   \<and> filterItems examplePlatform exampleConfig [oldItem] [] \<noteq> Inr ([] @ [toResult oldItem])
   \<and> getPublishedDate examplePlatform undatedItem = None
   \<and> \<not> rejectedByDate examplePlatform exampleConfig undatedItem
   \<and> processPage examplePlatform exampleConfig {} [undatedItem] []
       = Inr ([] @ [toResult undatedItem])
   \<and> filterItems examplePlatform exampleConfig [undatedItem] []
       = Inr ([] @ [toResult undatedItem])
   \<and> getPublishedDate examplePlatform garbledItem = Some None
   \<and> \<not> rejectedByDate examplePlatform exampleConfig garbledItem
   \<and> processPage examplePlatform exampleConfig {} [garbledItem] []
       = Inr ([] @ [toResult garbledItem])
   \<and> getPublishedDate examplePlatform newYearItem = Some (Some 1735689600000)
   \<and> \<not> rejectedByDate examplePlatform exampleConfig newYearItem
   \<and> filterItems examplePlatform exampleConfig [newYearItem] []
       = Inr ([] @ [toResult newYearItem])"
proof -
  note old = date_filter [where pf = examplePlatform and cfg = exampleConfig and it = oldItem
      and S = "{}" and acc = "[]"]
  note undated = date_filter [where pf = examplePlatform and cfg = exampleConfig
      and it = undatedItem and S = "{}" and acc = "[]"]
  note garbled = date_filter [where pf = examplePlatform and cfg = exampleConfig
      and it = garbledItem and S = "{}" and acc = "[]"]
  note newYear = date_filter [where pf = examplePlatform and cfg = exampleConfig
      and it = newYearItem and S = "{}" and acc = "[]"]
  have lt: "(1733011200000::int) < 1735689600000" by simp
  from old example_minDate example_published(1) lt
  have 1: "rejectedByDate examplePlatform exampleConfig oldItem" by blast
  with old
  have 2: "processPage examplePlatform exampleConfig {} [oldItem] [] \<noteq> Inr ([] @ [toResult oldItem])"
    "filterItems examplePlatform exampleConfig [oldItem] [] \<noteq> Inr ([] @ [toResult oldItem])"
    by blast+
  from undated example_published(2)
  have 3: "\<not> rejectedByDate examplePlatform exampleConfig undatedItem" by blast
  with undated example_other_tests(1)
  have 4: "processPage examplePlatform exampleConfig {} [undatedItem] []
       = Inr ([] @ [toResult undatedItem])"
    "filterItems examplePlatform exampleConfig [undatedItem] []
       = Inr ([] @ [toResult undatedItem])"
    by simp_all
  from garbled example_published(3)
  have 5: "\<not> rejectedByDate examplePlatform exampleConfig garbledItem" by blast
  with garbled example_other_tests(2)
  have 6: "processPage examplePlatform exampleConfig {} [garbledItem] []
       = Inr ([] @ [toResult garbledItem])"
    by simp
  from newYear example_minDate example_published(4)
  have 7: "\<not> rejectedByDate examplePlatform exampleConfig newYearItem" by auto
  with newYear example_other_tests(3)
  have 8: "filterItems examplePlatform exampleConfig [newYearItem] []
       = Inr ([] @ [toResult newYearItem])"
    by simp
  from example_minDate example_published 1 2 3 4 5 6 7 8 show ?thesis by blast
qed

section \<open>The page loop of the incremental fetch\<close>

lemma processPage_Cons:
  "processPage pf cfg S (it # its) acc =
     (if raises pf cfg S acc it then Inl TypeError
      else if passes pf cfg S acc it
        then (if atTarget (Suc (length acc)) (maxResults cfg) then Inr (acc @ [toResult it])
              else processPage pf cfg S its (acc @ [toResult it]))
      else processPage pf cfg S its acc)"
  by (cases "avoidKeywords cfg") (simp_all add: passes_def raises_def avoidCheck_def)

declare processPage.simps(2) [simp del]

lemma processPage_unseen:
  "processPage pf cfg S its acc = Inr acc' \<Longrightarrow>
   \<forall>r \<in> set acc. normalizeUrl pf (URL r) \<notin> S \<Longrightarrow>
   \<forall>r \<in> set acc'. normalizeUrl pf (URL r) \<notin> S"
proof (induction its arbitrary: acc)
  case Nil
  then show ?case by simp
next
  case (Cons it its)
  have *: "passes pf cfg S acc it \<Longrightarrow> \<forall>r \<in> set (acc @ [toResult it]). normalizeUrl pf (URL r) \<notin> S"
    using Cons.prems(2) by (simp add: passes_def toResult_def)
  from Cons.prems(1) show ?case
    unfolding processPage_Cons
    using Cons.IH [of acc] Cons.IH [of "acc @ [toResult it]"] * Cons.prems(2)
    by (auto split: if_splits)
qed


lemma processPage_extends:
  "processPage pf cfg S its acc = Inr acc' \<Longrightarrow>
   \<exists>more. acc' = acc @ more \<and> set more \<subseteq> toResult ` set its
     \<and> (\<forall>r \<in> set more. normalizeUrl pf (URL r) \<notin> S)"
proof (induction its arbitrary: acc)
  case Nil
  then show ?case by simp
next
  case (Cons it its)
  show ?case
  proof (cases "passes pf cfg S acc it")
    case False
    with Cons.prems have "processPage pf cfg S its acc = Inr acc'"
      by (simp add: processPage_Cons split: if_splits)
    from Cons.IH [OF this] show ?thesis by auto
  next
    case True
    then have new: "normalizeUrl pf (URL (toResult it)) \<notin> S"
      by (simp add: passes_def toResult_def)
    show ?thesis
    proof (cases "atTarget (Suc (length acc)) (maxResults cfg)")
      case True
      with \<open>passes pf cfg S acc it\<close> Cons.prems have "acc' = acc @ [toResult it]"
        by (simp add: processPage_Cons split: if_splits)
      with new show ?thesis by simp
    next
      case False
      with \<open>passes pf cfg S acc it\<close> Cons.prems
      have "processPage pf cfg S its (acc @ [toResult it]) = Inr acc'"
        by (simp add: processPage_Cons split: if_splits)
      from Cons.IH [OF this] obtain more where
        "acc' = (acc @ [toResult it]) @ more" "set more \<subseteq> toResult ` set its"
        "\<forall>r \<in> set more. normalizeUrl pf (URL r) \<notin> S"
        by blast
      with new show ?thesis
        by (intro exI [of _ "toResult it # more"]) auto
    qed
  qed
qed

lemma processPage_distinct:
  "processPage pf cfg S its acc = Inr acc' \<Longrightarrow>
   distinct (map (\<lambda>r. normalizeUrl pf (URL r)) acc) \<Longrightarrow>
   distinct (map (\<lambda>r. normalizeUrl pf (URL r)) acc')"
proof (induction its arbitrary: acc)
  case Nil
  then show ?case by simp
next
  case (Cons it its)
  have *: "passes pf cfg S acc it \<Longrightarrow>
      distinct (map (\<lambda>r. normalizeUrl pf (URL r)) (acc @ [toResult it]))"
    using Cons.prems(2) by (auto simp: passes_def toResult_def list_ex_iff)
  from Cons.prems(1) show ?case
    unfolding processPage_Cons
    using Cons.IH [of acc] Cons.IH [of "acc @ [toResult it]"] * Cons.prems(2)
    by (auto split: if_splits)
qed

lemma processPage_bound:
  "processPage pf cfg S its acc = Inr acc' \<Longrightarrow> maxResults cfg = Some t \<Longrightarrow>
   int (length acc) < t \<Longrightarrow> int (length acc') \<le> t"
proof (induction its arbitrary: acc)
  case Nil
  then show ?case by simp
next
  case (Cons it its)
  from Cons.prems show ?case
    unfolding processPage_Cons
    using Cons.IH [of acc] Cons.IH [of "acc @ [toResult it]"]
    by (auto simp: atTarget_def split: if_splits)
qed

lemma processPage_stops:
  "processPage pf cfg S xs acc = Inr acc' \<Longrightarrow> maxResults cfg = Some t \<Longrightarrow>
   int (length acc) < t \<Longrightarrow> t \<le> int (length acc') \<Longrightarrow>
   processPage pf cfg S (xs @ ys) acc = Inr acc'"
proof (induction xs arbitrary: acc)
  case Nil
  then show ?case by simp
next
  case (Cons it its)
  from Cons.prems show ?case
    unfolding append_Cons processPage_Cons
    using Cons.IH [of acc] Cons.IH [of "acc @ [toResult it]"]
    by (auto simp: atTarget_def split: if_splits)
qed


lemma fetchNewResults_loop_invariant:
  assumes step: "\<And>its acc acc'. P acc \<Longrightarrow> belowTarget (length acc) (maxResults cfg) \<Longrightarrow>
      processPage pf cfg S its acc = Inr acc' \<Longrightarrow> P acc'"
  shows "fetchNewResults_loop fuel rm pf cfg S k s acc reqs = Some (Inr out) \<Longrightarrow> P acc \<Longrightarrow>
     P (results out)"
proof (induction fuel arbitrary: k s acc reqs)
  case 0
  then show ?case by (auto split: if_splits)
next
  case (Suc fuel)
  show ?case
  proof (cases "belowTarget (length acc) (maxResults cfg)")
    case False
    with Suc.prems show ?thesis by auto
  next
    case below: True
    show ?thesis
    proof (cases "rm k s")
      case Failure
      with below Suc.prems show ?thesis by auto
    next
      case (Data its np)
      show ?thesis
      proof (cases "noItems its")
        case True
        with Data Suc.prems below show ?thesis by auto
      next
        case False
        from Suc.prems below Data False obtain acc' where
          pp: "processPage pf cfg S (the its) acc = Inr acc'"
          by (auto split: sum.splits)
        have inv: "P acc'"
          using step [OF Suc.prems(2) below pp] .
        from Suc.prems(1) below Data False pp inv Suc.IH [of "Suc k" _ acc' "reqs @ [s]"]
        show ?thesis
          by (auto split: if_splits hint.splits)
      qed
    qed
  qed
qed

lemma fetchNewResults_unseen:
  "fetchNewResults fuel rm pf cfg S = Some (Inr out) \<Longrightarrow>
   \<forall>r \<in> set (results out). normalizeUrl pf (URL r) \<notin> S"
  unfolding fetchNewResults_def
  by (erule fetchNewResults_loop_invariant
        [where P = "\<lambda>acc. \<forall>r \<in> set acc. normalizeUrl pf (URL r) \<notin> S", rotated])
     (simp_all add: processPage_unseen)

lemma fetchNewResults_distinct:
  "fetchNewResults fuel rm pf cfg S = Some (Inr out) \<Longrightarrow>
   distinct (map (\<lambda>r. normalizeUrl pf (URL r)) (results out))"
  unfolding fetchNewResults_def
  by (erule fetchNewResults_loop_invariant
        [where P = "\<lambda>acc. distinct (map (\<lambda>r. normalizeUrl pf (URL r)) acc)", rotated])
     (simp_all add: processPage_distinct)

lemma fetchNewResults_bound:
  assumes "fetchNewResults fuel rm pf cfg S = Some (Inr out)" "maxResults cfg = Some t" "0 \<le> t"
  shows "int (length (results out)) \<le> t"
proof -
  have "int (length (results out)) \<le> t"
  proof (rule fetchNewResults_loop_invariant [where P = "\<lambda>acc. int (length acc) \<le> t"])
    show "fetchNewResults_loop fuel rm pf cfg S 0 1 [] [] = Some (Inr out)"
      using assms(1) by (simp add: fetchNewResults_def)
    show "int (length ([]::result list)) \<le> t" using assms(3) by simp
  next
    fix its acc acc'
    assume "belowTarget (length acc) (maxResults cfg)" "processPage pf cfg S its acc = Inr acc'"
    then show "int (length acc') \<le> t"
      using processPage_bound [of pf cfg S its acc acc' t] assms(2)
      by (simp add: belowTarget_def)
  qed
  then show ?thesis .
qed

lemma mainNewResults_unseen:
  "mainNewResults fuel rm pf cfg S = Some (Inr rs) \<Longrightarrow> \<forall>r \<in> set rs. URL r \<notin> S"
  by (auto simp: mainNewResults_def split: option.splits sum.splits)


section \<open>Processed URLs are not emitted again\<close>

text \<open>
  C1, as amended. The normalized form of a URL is the platform's \<open>toLowerCase\<close> of its
  \<open>trim\<close>. In the incremental variant (part_001) no record the fetch returns has a URL
  whose normalized form is in the processed set. In googleSearch.js
  the membership test is on the URL string as it is, without normalization: no record
  handed to \<open>appendToCSV\<close> has its URL itself in the processed set.
\<close>

theorem processed_urls_not_emitted:
  "normalizeUrl pf url = toLowerCase pf (trim pf url)
   \<and> (fetchNewResults fuel rm pf cfg S = Some (Inr out) \<longrightarrow>
      (\<forall>r \<in> set (results out). normalizeUrl pf (URL r) \<notin> S))
   \<and> (mainNewResults fuel rm pf cfg S = Some (Inr rs) \<longrightarrow> (\<forall>r \<in> set rs. URL r \<notin> S))"
  using fetchNewResults_unseen [of fuel rm pf cfg S out]
    mainNewResults_unseen [of fuel rm pf cfg S rs]
  by (simp add: normalizeUrl_def)

lemma example_mixedPage_new:
  "fetchNewResults 1 mixedPage examplePlatform exampleConfig seenUrls =
     Some (Inr \<lparr>results = [toResult undatedItem, toResult otherItem], requests = [1],
                 exitBy = NoNextPage\<rparr>)"
  by code_simp

lemma example_mixedPage_main:
  "mainNewResults 1 mixedPage examplePlatform exampleConfig seenUrls =
     Some (Inr [toResult shoutedItem, toResult undatedItem, toResult otherItem])"
  by code_simp

theorem processed_urls_not_emitted_witness:
  "fetchNewResults 1 mixedPage examplePlatform exampleConfig seenUrls =
     Some (Inr \<lparr>results = [toResult undatedItem, toResult otherItem], requests = [1],
                 exitBy = NoNextPage\<rparr>)
   \<and> normalizeUrl examplePlatform (URL (toResult undatedItem)) \<notin> seenUrls
   \<and> normalizeUrl examplePlatform (URL (toResult otherItem)) \<notin> seenUrls
   \<and> mainNewResults 1 mixedPage examplePlatform exampleConfig seenUrls =
       Some (Inr [toResult shoutedItem, toResult undatedItem, toResult otherItem])
   \<and> URL (toResult shoutedItem) \<notin> seenUrls
   \<and> URL (toResult undatedItem) \<notin> seenUrls
   \<and> URL (toResult otherItem) \<notin> seenUrls"
proof -
  note inst =
    processed_urls_not_emitted [where fuel = 1 and rm = mixedPage and pf = examplePlatform
      and cfg = exampleConfig and S = seenUrls
      and out = "\<lparr>results = [toResult undatedItem, toResult otherItem], requests = [1],
                 exitBy = NoNextPage\<rparr>"
      and rs = "[toResult shoutedItem, toResult undatedItem, toResult otherItem]"]
  from inst example_mixedPage_new
  have "\<forall>r \<in> set (results \<lparr>results = [toResult undatedItem, toResult otherItem],
      requests = [1::int], exitBy = NoNextPage\<rparr>). normalizeUrl examplePlatform (URL r) \<notin> seenUrls"
    by blast
  then have 1: "normalizeUrl examplePlatform (URL (toResult undatedItem)) \<notin> seenUrls"
    "normalizeUrl examplePlatform (URL (toResult otherItem)) \<notin> seenUrls"
    by simp_all
  from inst example_mixedPage_main
  have "\<forall>r \<in> set [toResult shoutedItem, toResult undatedItem, toResult otherItem].
      URL r \<notin> seenUrls"
    by blast
  then have 2: "URL (toResult shoutedItem) \<notin> seenUrls" "URL (toResult undatedItem) \<notin> seenUrls"
    "URL (toResult otherItem) \<notin> seenUrls"
    by simp_all
  from example_mixedPage_new example_mixedPage_main 1 2 show ?thesis by blast
qed

text \<open>
  As the specification states it, the property fails on googleSearch.js: with \<open>https://jobs.example.com/1\<close> processed,
  an item served as \<open>HTTPS://Jobs.Example.com/1\<close> between blanks is handed to
  \<open>appendToCSV\<close>, although its normalized URL is in the processed set.
\<close>

theorem googleSearch_emits_processed_url:
  "mainNewResults 1 mixedPage examplePlatform exampleConfig seenUrls =
     Some (Inr [toResult shoutedItem, toResult undatedItem, toResult otherItem])
   \<and> normalizeUrl examplePlatform (URL (toResult shoutedItem)) \<in> seenUrls"
  by code_simp

section \<open>Query builder\<close>

lemma join_nonempty: "xs \<noteq> [] \<Longrightarrow> (\<forall>x \<in> set xs. x \<noteq> []) \<Longrightarrow> join sep xs \<noteq> []"
  by (induction sep xs rule: join.induct) simp_all

lemma clause_cases:
  "clause pre f xs =
     (if nonEmptyList xs then [pre @ ''('' @ join '' OR '' (map f (the xs)) @ '')''] else [])"
  by (cases xs) (simp_all add: clause_def nonEmptyList_def)

lemma keep_part:
  "filter (\<lambda>p. p \<noteq> [])
     [if nonEmptyList xs then pre @ ''('' @ join '' OR '' (map f (the xs)) @ '')'' else []] =
   clause pre f xs"
  by (simp add: clause_cases)

lemma keep_date:
  "filter (\<lambda>p. p \<noteq> []) [if truthyStr d then ''after:'' @ the d else []] = dateClause d"
  by (cases d) (simp_all add: dateClause_def)

lemma filter_six:
  "filter P [a, b, c, d, e, g] =
     filter P [a] @ filter P [b] @ filter P [c] @ filter P [d] @ filter P [e] @ filter P [g]"
  by simp

lemma buildQuery_clauses: "buildQuery c = join '' '' (queryClauses c)"
proof -
  have "buildQuery c =
      join '' ''
        (filter (\<lambda>p. p \<noteq> [])
           [if nonEmptyList (intitleKeywords c)
            then ''intitle:'' @ ''('' @ join '' OR '' (map quoted (the (intitleKeywords c))) @ '')''
            else []]
         @ filter (\<lambda>p. p \<noteq> [])
           [if nonEmptyList (keywords c)
            then [] @ ''('' @ join '' OR '' (map quoted (the (keywords c))) @ '')'' else []]
         @ filter (\<lambda>p. p \<noteq> [])
           [if nonEmptyList (domains c)
            then [] @ ''('' @ join '' OR '' (map siteTerm (the (domains c))) @ '')''
            else []]
         @ filter (\<lambda>p. p \<noteq> [])
           [if nonEmptyList (locations c)
            then [] @ ''('' @ join '' OR '' (map quoted (the (locations c))) @ '')'' else []]
         @ filter (\<lambda>p. p \<noteq> [])
           [if nonEmptyList (avoidKeywords c)
            then ''-'' @ ''('' @ join '' OR '' (map quoted (the (avoidKeywords c))) @ '')''
            else []]
         @ filter (\<lambda>p. p \<noteq> []) [if truthyStr (minDate c) then ''after:'' @ the (minDate c) else []])"
    unfolding buildQuery_def Let_def filter_six by simp
  then show ?thesis
    unfolding keep_part keep_date queryClauses_def .
qed

lemma clause_shape:
  "(nonEmptyList xs \<and> (\<forall>x. f x \<noteq> []) \<longrightarrow>
      (\<exists>body. body \<noteq> [] \<and> clause pre f xs = [pre @ ''('' @ body @ '')'']))
   \<and> (\<not> nonEmptyList xs \<longrightarrow> clause pre f xs = [])"
proof (cases "nonEmptyList xs")
  case False
  then show ?thesis by (simp add: clause_cases)
next
  case True
  then have ne: "the xs \<noteq> []" by (cases xs) (simp_all add: nonEmptyList_def)
  have "join '' OR '' (map f (the xs)) \<noteq> []" if "\<forall>x. f x \<noteq> []"
    using ne that by (intro join_nonempty) auto
  with True show ?thesis by (simp add: clause_cases)
qed

lemma clause_quoted:
  "nonEmptyList xs \<Longrightarrow> \<exists>body. body \<noteq> [] \<and> clause pre quoted xs = [pre @ ''('' @ body @ '')'']"
  using clause_shape [of xs quoted pre] by (simp add: quoted_def)

lemma clause_site:
  "nonEmptyList xs \<Longrightarrow>
   \<exists>body. body \<noteq> [] \<and> clause pre siteTerm xs = [pre @ ''('' @ body @ '')'']"
  using clause_shape [of xs siteTerm pre] by (simp add: siteTerm_def)

lemma clause_empty: "\<not> nonEmptyList xs \<Longrightarrow> clause pre f xs = []"
  by (simp add: clause_cases)

lemma dateClause_cases:
  "dateClause d = (if truthyStr d then [''after:'' @ the d] else [])"
  by (cases d) (simp_all add: dateClause_def)

lemma length_queryClauses:
  "length (queryClauses c) =
     length (filter nonEmptyList
               [intitleKeywords c, keywords c, domains c, locations c, avoidKeywords c])
     + (if truthyStr (minDate c) then 1 else 0)"
  by (simp add: queryClauses_def clause_cases dateClause_cases)

lemma buildQuery4_clauses:
  "keywords c = Some ks \<Longrightarrow> domains c = Some ds \<Longrightarrow> locations c = Some ls \<Longrightarrow>
   buildQuery4 c =
     Inr (join '' ''
            ([quoteJoin ks, ''('' @ join '' OR '' (map siteTerm ds) @ '')'',
              quoteJoin ls] @ dateClause (minDate c)))"
  by (simp add: buildQuery4_def quoteJoin_def dateClause_cases)

text \<open>
  C3, as amended. For the six-category \<open>buildQuery\<close> of googleSearch.js and part_001: the
  query is the clauses of the non-empty categories joined by single spaces in the fixed
  order title-keywords, keywords, domains, locations, avoid-keywords, minimum date; a
  non-empty list category gives exactly one clause, its operator prefix followed by a
  parenthesized non-empty OR-group, a configured minimum date gives the one token
  \<open>after:\<close> and the date, and an empty or absent category gives no clause; the number of
  clauses is the number of non-empty categories. The four-category \<open>buildQuery\<close> of
  part_002 has no emptiness test: with its three lists present it always emits their three
  parenthesized clauses, so an empty list gives empty parentheses, and only the date token
  is left out when no date is configured.
\<close>

theorem query_clauses:
  "buildQuery c = join '' '' (queryClauses c)
   \<and> length (queryClauses c) =
       length (filter nonEmptyList
                 [intitleKeywords c, keywords c, domains c, locations c, avoidKeywords c])
       + (if truthyStr (minDate c) then 1 else 0)
   \<and> (nonEmptyList xs \<longrightarrow>
        (\<exists>body. body \<noteq> [] \<and> clause pre quoted xs = [pre @ ''('' @ body @ '')''])
        \<and> (\<exists>body. body \<noteq> []
              \<and> clause pre siteTerm xs = [pre @ ''('' @ body @ '')'']))
   \<and> (\<not> nonEmptyList xs \<longrightarrow> clause pre f xs = [])
   \<and> dateClause d = (if truthyStr d then [''after:'' @ the d] else [])
   \<and> (keywords c = Some ks \<and> domains c = Some ds \<and> locations c = Some ls \<longrightarrow>
        buildQuery4 c =
          Inr (join '' ''
                 ([quoteJoin ks, ''('' @ join '' OR '' (map siteTerm ds) @ '')'',
                   quoteJoin ls] @ dateClause (minDate c))))
   \<and> quoteJoin [] = ''()''"
  using buildQuery_clauses [of c] length_queryClauses [of c] clause_quoted [of xs pre]
    clause_site [of xs pre] clause_empty [of xs pre f] dateClause_cases [of d]
    buildQuery4_clauses [of c ks ds ls]
  by (simp add: quoteJoin_def)

lemma example_queries:
  "buildQuery exampleConfig =
     ''intitle:('' @ quoted ''frontend developer'' @ '') ('' @ quoted ''experienced'' @ '' OR ''
       @ quoted ''senior'' @ '') (site:workday.com OR site:icims.com) ('' @ quoted ''Remote''
       @ '' OR '' @ quoted ''USA'' @ '') -('' @ quoted ''government clearance''
       @ '') after:2025-01-01''"
  "buildQuery emptyKeywordsConfig =
     ''intitle:('' @ quoted ''frontend developer''
       @ '') (site:workday.com OR site:icims.com) ('' @ quoted ''Remote''
       @ '' OR '' @ quoted ''USA'' @ '') -('' @ quoted ''government clearance''
       @ '') after:2025-01-01''"
  "length (queryClauses exampleConfig) = 6"
  "length (queryClauses emptyKeywordsConfig) = 5"
  by code_simp+

lemma example_categories:
  "nonEmptyList (keywords exampleConfig)"
  "\<not> nonEmptyList (keywords emptyKeywordsConfig)"
  "clause [] quoted (keywords exampleConfig) =
     [[] @ ''('' @ (quoted ''experienced'' @ '' OR '' @ quoted ''senior'') @ '')'']"
  "keywords emptyKeywordsConfig = Some [] \<and>
   domains emptyKeywordsConfig = Some [''workday.com'', ''icims.com''] \<and>
   locations emptyKeywordsConfig = Some [''Remote'', ''USA'']"
  by code_simp+

text \<open>
  The README's configuration gives six clauses; with its keyword list emptied the
  six-category builder gives five and no empty parentheses.
\<close>

theorem query_clauses_witness:
  "buildQuery exampleConfig = join '' '' (queryClauses exampleConfig)
   \<and> length (queryClauses exampleConfig) = 6
   \<and> nonEmptyList (keywords exampleConfig)
   \<and> (\<exists>body. body \<noteq> []
         \<and> clause [] quoted (keywords exampleConfig) = [[] @ ''('' @ body @ '')''])
   \<and> \<not> nonEmptyList (keywords emptyKeywordsConfig)
   \<and> clause [] quoted (keywords emptyKeywordsConfig) = []
   \<and> length (queryClauses emptyKeywordsConfig) = 5
   \<and> buildQuery emptyKeywordsConfig =
       ''intitle:('' @ quoted ''frontend developer''
         @ '') (site:workday.com OR site:icims.com) ('' @ quoted ''Remote''
         @ '' OR '' @ quoted ''USA'' @ '') -('' @ quoted ''government clearance''
         @ '') after:2025-01-01''
   \<and> buildQuery4 emptyKeywordsConfig =
       Inr (join '' ''
              ([quoteJoin [],
                ''('' @ join '' OR '' (map siteTerm [''workday.com'', ''icims.com''])
                  @ '')'',
                quoteJoin [''Remote'', ''USA'']] @ dateClause (minDate emptyKeywordsConfig)))"
  using
    query_clauses [where c = exampleConfig and xs = "keywords exampleConfig" and pre = "[]"]
    query_clauses [where c = emptyKeywordsConfig and xs = "keywords emptyKeywordsConfig"
      and pre = "[]" and f = quoted and ks = "[]" and ds = "[''workday.com'', ''icims.com'']"
      and ls = "[''Remote'', ''USA'']"]
    example_queries example_categories
  by simp

text \<open>
  As the specification states it, the property fails on the builder of part_002: an empty keyword list gives empty
  parentheses.
\<close>

theorem buildQuery4_empty_parentheses:
  "buildQuery4 emptyKeywordsConfig =
     Inr (''() (site:workday.com OR site:icims.com) ('' @ quoted ''Remote'' @ '' OR ''
            @ quoted ''USA'' @ '') after:2025-01-01'')"
  by code_simp

section \<open>Pagination: termination and exits\<close>

lemma fetchNewResults_loop_exits:
  "fetchNewResults_loop fuel rm pf cfg S (length reqs) s acc reqs = Some (Inr out) \<Longrightarrow>
   s \<le> 91 \<Longrightarrow> \<forall>x \<in> set reqs. x \<le> 91 \<Longrightarrow>
   (\<forall>x \<in> set (requests out). x \<le> 91)
   \<and> ((exitBy out = TargetReached \<and> \<not> belowTarget (length (results out)) (maxResults cfg))
        \<or> endedByAnswer rm out)"
proof (induction fuel arbitrary: s acc reqs)
  case 0
  then show ?case by (auto split: if_splits)
next
  case (Suc fuel)
  show ?case
  proof (cases "belowTarget (length acc) (maxResults cfg)")
    case False
    with Suc.prems show ?thesis by auto
  next
    case below: True
    show ?thesis
    proof (cases "rm (length reqs) s")
      case Failure
      with below Suc.prems show ?thesis
        by (auto simp: endedByAnswer_def lastAnswer_def)
    next
      case (Data its np)
      show ?thesis
      proof (cases "noItems its")
        case True
        with Data Suc.prems below show ?thesis
          by (auto simp: endedByAnswer_def lastAnswer_def)
      next
        case items: False
        from Suc.prems below Data items obtain acc' where
          pp: "processPage pf cfg S (the its) acc = Inr acc'"
          by (auto split: sum.splits)
        show ?thesis
        proof (cases "atTarget (length acc') (maxResults cfg)")
          case True
          then have "\<not> belowTarget (length acc') (maxResults cfg)"
            by (auto simp: atTarget_def belowTarget_def split: option.splits)
          with True Suc.prems below Data items pp show ?thesis by auto
        next
          case notyet: False
          show ?thesis
          proof (cases "nextStart np")
            case NoHint
            with notyet Suc.prems below Data items pp show ?thesis
              by (auto simp: endedByAnswer_def lastAnswer_def)
          next
            case BadHint
            with notyet Suc.prems below Data items pp show ?thesis by auto
          next
            case (Hint n)
            show ?thesis
            proof (cases "n > 91")
              case True
              with Hint notyet Suc.prems below Data items pp show ?thesis
                by (auto simp: endedByAnswer_def lastAnswer_def)
            next
              case False
              with Hint notyet Suc.prems(1) below Data items pp
              have run: "fetchNewResults_loop fuel rm pf cfg S (length (reqs @ [s])) n acc'
                  (reqs @ [s]) = Some (Inr out)"
                by simp
              from False have "n \<le> 91" by simp
              moreover have "\<forall>x \<in> set (reqs @ [s]). x \<le> 91"
                using Suc.prems(2,3) by simp
              ultimately show ?thesis
                using Suc.IH [OF run] by blast
            qed
          qed
        qed
      qed
    qed
  qed
qed

lemma fetchAllResults_loop_exits:
  "fetchAllResults_loop fuel rm cfg (length reqs) s allItems reqs = Some out \<Longrightarrow>
   s \<le> 91 \<Longrightarrow> \<forall>x \<in> set reqs. x \<le> 91 \<Longrightarrow>
   (\<forall>x \<in> set (requests out). x \<le> 91)
   \<and> ((exitBy out = TargetReached \<and> reached (length (results out)) (maxAll cfg))
        \<or> endedByAnswer rm out)"
proof (induction fuel arbitrary: s allItems reqs)
  case 0
  then show ?case by (auto split: if_splits)
next
  case (Suc fuel)
  show ?case
  proof (cases "reached (length allItems) (maxAll cfg)")
    case True
    with Suc.prems show ?thesis by auto
  next
    case below: False
    show ?thesis
    proof (cases "rm (length reqs) s")
      case Failure
      with below Suc.prems show ?thesis
        by (auto simp: endedByAnswer_def lastAnswer_def)
    next
      case (Data its np)
      show ?thesis
      proof (cases "noItems its")
        case True
        with Data Suc.prems below show ?thesis
          by (auto simp: endedByAnswer_def lastAnswer_def)
      next
        case items: False
        show ?thesis
        proof (cases "reached (length (allItems @ the its)) (maxAll cfg)")
          case True
          then have "reached (length (take (nat (the (maxAll cfg))) (allItems @ the its)))
              (maxAll cfg)"
            by (auto simp: reached_def split: option.splits)
          with True Suc.prems below Data items show ?thesis by auto
        next
          case notyet: False
          show ?thesis
          proof (cases "nextStart np")
            case NoHint
            with notyet Suc.prems below Data items show ?thesis
              by (auto simp: endedByAnswer_def lastAnswer_def)
          next
            case BadHint
            with notyet Suc.prems below Data items show ?thesis
              by (auto simp: endedByAnswer_def lastAnswer_def)
          next
            case (Hint n)
            show ?thesis
            proof (cases "n > 91")
              case True
              with Hint notyet Suc.prems below Data items show ?thesis
                by (auto simp: endedByAnswer_def lastAnswer_def)
            next
              case False
              with Hint notyet Suc.prems(1) below Data items
              have run: "fetchAllResults_loop fuel rm cfg (length (reqs @ [s])) n
                  (allItems @ the its) (reqs @ [s]) = Some out"
                by simp
              from False have "n \<le> 91" by simp
              moreover have "\<forall>x \<in> set (reqs @ [s]). x \<le> 91"
                using Suc.prems(2,3) by simp
              ultimately show ?thesis
                using Suc.IH [OF run] by blast
            qed
          qed
        qed
      qed
    qed
  qed
qed













section \<open>Absent target count\<close>

lemma fetchNewResults_no_target:
  "maxResults cfg = None \<or> maxResults cfg = Some 0 \<Longrightarrow>
   fetchNewResults fuel rm pf cfg S =
     Some (Inr \<lparr>results = [], requests = [], exitBy = TargetReached\<rparr>)"
  by (cases fuel) (auto simp: fetchNewResults_def belowTarget_def)

lemma fetchAllResults_unbounded:
  assumes "maxResults cfg = None" "fetchAllResults fuel rm cfg = Some out"
  shows "exitBy out \<noteq> TargetReached \<and> endedByAnswer rm out"
proof -
  from assms(1) have none: "maxAll cfg = None" by (simp add: maxAll_def)
  from assms(2) have run: "fetchAllResults_loop fuel rm cfg (length ([]::int list)) 1 [] [] = Some out"
    by (simp add: fetchAllResults_def)
  from fetchAllResults_loop_exits [OF run]
  have "(exitBy out = TargetReached \<and> reached (length (results out)) (maxAll cfg))
      \<or> endedByAnswer rm out"
    by simp
  with none show ?thesis
    by (auto simp: reached_def endedByAnswer_def split: response.splits hint.splits if_splits)
qed

text \<open>
  C10. In the incremental variant an absent or zero \<open>maxResults\<close> makes the loop return the
  empty list without any request, whatever the endpoint. In the fetch-all variant an absent
  \<open>maxResults\<close> is an unbounded target: a run that returns was not ended by a target test
  but by the answer to its last request (a failure, a page without items, no next-page
  hint, or a hint beyond the ceiling).
\<close>

theorem absent_target:
  "(maxResults cfg = None \<or> maxResults cfg = Some 0 \<longrightarrow>
      fetchNewResults fuel rm pf cfg S =
        Some (Inr \<lparr>results = [], requests = [], exitBy = TargetReached\<rparr>))
   \<and> (maxResults cfg = None \<and> fetchAllResults fuel rm cfg = Some out \<longrightarrow>
        exitBy out \<noteq> TargetReached \<and> endedByAnswer rm out)"
  using fetchNewResults_no_target [of cfg fuel rm pf S]
    fetchAllResults_unbounded [of cfg fuel rm out]
  by blast

lemma example_fetchAll_onePage:
  "fetchAllResults 1 onePage noTargetConfig =
     Some \<lparr>results = [undatedItem], requests = [1], exitBy = NoNextPage\<rparr>"
  "endedByAnswer onePage \<lparr>results = [undatedItem], requests = [1], exitBy = NoNextPage\<rparr>"
  "maxResults noTargetConfig = None"
  by code_simp+

theorem absent_target_witness:
  "maxResults noTargetConfig = None
   \<and> fetchNewResults 1 onePage examplePlatform noTargetConfig {} =
       Some (Inr \<lparr>results = [], requests = [], exitBy = TargetReached\<rparr>)
   \<and> fetchAllResults 1 onePage noTargetConfig =
       Some \<lparr>results = [undatedItem], requests = [1], exitBy = NoNextPage\<rparr>
   \<and> NoNextPage \<noteq> TargetReached
   \<and> endedByAnswer onePage \<lparr>results = [undatedItem], requests = [1], exitBy = NoNextPage\<rparr>"
  using
    absent_target [where cfg = noTargetConfig and fuel = 1 and rm = onePage and pf = examplePlatform
      and S = "{}" and out = "\<lparr>results = [undatedItem], requests = [1], exitBy = NoNextPage\<rparr>"]
    example_fetchAll_onePage
  by simp

section \<open>Failed requests\<close>

lemma fetchNewResults_loop_failingAt:
  "k \<le> n \<Longrightarrow>
   returned (fetchNewResults_loop fuel (failingAt n rm) pf cfg S k s acc reqs)
     = returned (fetchNewResults_loop fuel (emptyAt n rm) pf cfg S k s acc reqs)"
proof (induction fuel arbitrary: k s acc reqs)
  case 0
  then show ?case by simp
next
  case (Suc fuel)
  show ?case
  proof (cases "k = n")
    case True
    then show ?thesis
      by (simp add: failingAt_def emptyAt_def noItems_def returned_def)
  next
    case False
    with Suc.prems have "Suc k \<le> n" by simp
    note IH = Suc.IH [OF this]
    from False have same: "failingAt n rm k s = rm k s" "emptyAt n rm k s = rm k s"
      by (simp_all add: failingAt_def emptyAt_def)
    show ?thesis
      unfolding fetchNewResults_loop.simps same
      using IH
      by (auto simp: returned_def split: response.splits sum.splits hint.splits)
  qed
qed

lemma fetchAllResults_loop_failingAt:
  "k \<le> n \<Longrightarrow>
   map_option results (fetchAllResults_loop fuel (failingAt n rm) cfg k s allItems reqs)
     = map_option results (fetchAllResults_loop fuel (emptyAt n rm) cfg k s allItems reqs)"
proof (induction fuel arbitrary: k s allItems reqs)
  case 0
  then show ?case by simp
next
  case (Suc fuel)
  show ?case
  proof (cases "k = n")
    case True
    then show ?thesis
      by (simp add: failingAt_def emptyAt_def noItems_def)
  next
    case False
    with Suc.prems have "Suc k \<le> n" by simp
    note IH = Suc.IH [OF this]
    from False have same: "failingAt n rm k s = rm k s" "emptyAt n rm k s = rm k s"
      by (simp_all add: failingAt_def emptyAt_def)
    show ?thesis
      unfolding fetchAllResults_loop.simps same
      using IH
      by (auto split: response.splits hint.splits)
  qed
qed

text \<open>
  C5. At any state of either loop, when the request of the iteration fails (the request
  or the decoding of its body raises), the loop returns at once: the result is exactly the
  accumulator the iteration started with, and the failed request is the last one issued,
  so there is no retry and nothing is taken from the failed page. For a whole run: when
  the \<open>n\<close>-th request fails, the run hands back what it would hand back had the \<open>n\<close>-th
  request been answered by a page without items, that is, what the pages before it gave.
\<close>

theorem fetch_failure_aborts:
  "(belowTarget (length newResults) (maxResults cfg) \<and> rm k startIndex = Failure \<longrightarrow>
      fetchNewResults_loop (Suc fuel) rm pf cfg S k startIndex newResults reqs =
        Some (Inr \<lparr>results = newResults, requests = reqs @ [startIndex],
                    exitBy = FetchFailed\<rparr>))
   \<and> (\<not> reached (length allItems) (maxAll cfg) \<and> rm k startIndex = Failure \<longrightarrow>
      fetchAllResults_loop (Suc fuel) rm cfg k startIndex allItems reqs =
        Some \<lparr>results = allItems, requests = reqs @ [startIndex], exitBy = FetchFailed\<rparr>)
   \<and> returned (fetchNewResults fuel (failingAt n rm) pf cfg S)
       = returned (fetchNewResults fuel (emptyAt n rm) pf cfg S)
   \<and> map_option results (fetchAllResults fuel (failingAt n rm) cfg)
       = map_option results (fetchAllResults fuel (emptyAt n rm) cfg)"
  using fetchNewResults_loop_failingAt [of 0 n fuel rm pf cfg S 1 "[]" "[]"]
    fetchAllResults_loop_failingAt [of 0 n fuel rm cfg 1 "[]" "[]"]
  by (simp add: fetchNewResults_def fetchAllResults_def)

lemma example_failingAt:
  "fetchNewResults 5 (failingAt 1 tenFurther) examplePlatform exampleConfig seenUrls =
     Some (Inr \<lparr>results = [toResult undatedItem], requests = [1, 11], exitBy = FetchFailed\<rparr>)"
  "fetchAllResults 5 (failingAt 1 tenFurther) exampleConfig =
     Some \<lparr>results = [undatedItem], requests = [1, 11], exitBy = FetchFailed\<rparr>"
  by code_simp+

text \<open>
  A failure at offset 31, after three pages; and an endpoint whose second request fails:
  both loops return what the first page gave.
\<close>

theorem fetch_failure_aborts_witness:
  "belowTarget (length [toResult undatedItem]) (maxResults exampleConfig)
   \<and> failingRemote 3 31 = Failure
   \<and> fetchNewResults_loop (Suc 0) failingRemote examplePlatform exampleConfig {} 3 31
         [toResult undatedItem] [1, 11, 21] =
       Some (Inr \<lparr>results = [toResult undatedItem], requests = [1, 11, 21] @ [31],
                   exitBy = FetchFailed\<rparr>)
   \<and> \<not> reached (length [undatedItem]) (maxAll exampleConfig)
   \<and> fetchAllResults_loop (Suc 0) failingRemote exampleConfig 3 31 [undatedItem] [1, 11, 21] =
       Some \<lparr>results = [undatedItem], requests = [1, 11, 21] @ [31], exitBy = FetchFailed\<rparr>
   \<and> returned (fetchNewResults 5 (emptyAt 1 tenFurther) examplePlatform exampleConfig seenUrls)
       = Some (Inr [toResult undatedItem])
   \<and> map_option results (fetchAllResults 5 (emptyAt 1 tenFurther) exampleConfig)
       = Some [undatedItem]"
proof -
  have a: "belowTarget (length [toResult undatedItem]) (maxResults exampleConfig)"
    by (simp add: belowTarget_def exampleConfig_def)
  have b: "failingRemote 3 31 = Failure"
    by (simp add: failingRemote_def)
  have c: "\<not> reached (length [undatedItem]) (maxAll exampleConfig)"
    by (simp add: reached_def maxAll_def exampleConfig_def)
  have d: "returned (fetchNewResults 5 (failingAt 1 tenFurther) examplePlatform exampleConfig seenUrls)
      = Some (Inr [toResult undatedItem])"
    "map_option results (fetchAllResults 5 (failingAt 1 tenFurther) exampleConfig)
      = Some [undatedItem]"
    using example_failingAt by (simp_all add: returned_def)
  note state =
    fetch_failure_aborts [where newResults = "[toResult undatedItem]" and cfg = exampleConfig
      and rm = failingRemote and k = 3 and startIndex = 31 and fuel = 0 and pf = examplePlatform
      and S = "{}" and reqs = "[1, 11, 21]" and allItems = "[undatedItem]"]
  note run =
    fetch_failure_aborts [where cfg = exampleConfig and rm = tenFurther and fuel = 5
      and pf = examplePlatform and S = seenUrls and n = 1]
  from state a b
  have 1: "fetchNewResults_loop (Suc 0) failingRemote examplePlatform exampleConfig {} 3 31
         [toResult undatedItem] [1, 11, 21] =
       Some (Inr \<lparr>results = [toResult undatedItem], requests = [1, 11, 21] @ [31],
                   exitBy = FetchFailed\<rparr>)"
    by blast
  from state c b
  have 2: "fetchAllResults_loop (Suc 0) failingRemote exampleConfig 3 31 [undatedItem]
         [1, 11, 21] =
       Some \<lparr>results = [undatedItem], requests = [1, 11, 21] @ [31], exitBy = FetchFailed\<rparr>"
    by blast
  from run have "returned (fetchNewResults 5 (failingAt 1 tenFurther) examplePlatform exampleConfig
        seenUrls)
      = returned (fetchNewResults 5 (emptyAt 1 tenFurther) examplePlatform exampleConfig seenUrls)"
    by blast
  with d(1) have 3: "returned (fetchNewResults 5 (emptyAt 1 tenFurther) examplePlatform exampleConfig
        seenUrls) = Some (Inr [toResult undatedItem])"
    by metis
  from run have "map_option results (fetchAllResults 5 (failingAt 1 tenFurther) exampleConfig)
      = map_option results (fetchAllResults 5 (emptyAt 1 tenFurther) exampleConfig)"
    by blast
  with d(2) have 4: "map_option results (fetchAllResults 5 (emptyAt 1 tenFurther) exampleConfig)
      = Some [undatedItem]"
    by metis
  from a b 1 c 2 3 4 show ?thesis by blast
qed

lemma filterItems_keeps:
  "avoidKeywords cfg = Some kws \<Longrightarrow>
   filterItems pf cfg its acc = Inr (acc @ map toResult (filter (keeps pf cfg) its))"
proof (induction its arbitrary: acc)
  case Nil
  then show ?case by simp
next
  case (Cons it its)
  then show ?case by (simp add: keeps_def avoidCheck_def)
qed

lemma accepted_filter:
  "filter (\<lambda>r. URL r \<notin> S) (map toResult (filter (keeps pf cfg) its)) = accepted pf cfg S its"
  by (induction its) (simp_all add: accepted_def toResult_def)

lemma processPage_continues:
  "processPage pf cfg S its acc = Inr acc' \<Longrightarrow> \<not> atTarget (length acc') (maxResults cfg) \<Longrightarrow>
   processPage pf cfg S (its @ rest) acc = processPage pf cfg S rest acc'"
proof (induction its arbitrary: acc)
  case Nil
  then show ?case by simp
next
  case (Cons it its)
  from Cons.prems show ?case
    unfolding append_Cons processPage_Cons
    using Cons.IH [of acc] Cons.IH [of "acc @ [toResult it]"]
    by (auto split: if_splits)
qed

lemma processPage_complete:
  "processPage pf cfg S its acc = Inr acc' \<Longrightarrow> \<not> atTarget (length acc') (maxResults cfg) \<Longrightarrow>
   \<forall>it \<in> set its.
     normalizeUrl pf (itemUrl it) \<in> S \<or> \<not> keeps pf cfg it
     \<or> normalizeUrl pf (itemUrl it) \<in> (\<lambda>r. normalizeUrl pf (URL r)) ` set acc'"
proof (induction its arbitrary: acc)
  case Nil
  then show ?case by simp
next
  case (Cons it its)
  from Cons.prems(1) have noraise: "\<not> raises pf cfg S acc it"
    by (auto simp: processPage_Cons)
  show ?case
  proof (cases "passes pf cfg S acc it")
    case True
    with noraise Cons.prems have notyet: "\<not> atTarget (Suc (length acc)) (maxResults cfg)"
      by (auto simp: processPage_Cons)
    with True noraise Cons.prems(1)
    have run: "processPage pf cfg S its (acc @ [toResult it]) = Inr acc'"
      by (simp add: processPage_Cons)
    from processPage_extends [OF run] have "toResult it \<in> set acc'" by auto
    then have "normalizeUrl pf (URL (toResult it)) \<in> (\<lambda>r. normalizeUrl pf (URL r)) ` set acc'"
      by (rule imageI)
    then have "normalizeUrl pf (itemUrl it) \<in> (\<lambda>r. normalizeUrl pf (URL r)) ` set acc'"
      by (simp add: toResult_def)
    with Cons.IH [OF run Cons.prems(2)] show ?thesis by simp
  next
    case False
    with noraise Cons.prems(1) have run: "processPage pf cfg S its acc = Inr acc'"
      by (simp add: processPage_Cons)
    from processPage_extends [OF run] have sub: "set acc \<subseteq> set acc'" by auto
    have "normalizeUrl pf (itemUrl it) \<in> S \<or> \<not> keeps pf cfg it
        \<or> normalizeUrl pf (itemUrl it) \<in> (\<lambda>r. normalizeUrl pf (URL r)) ` set acc'"
    proof (cases "normalizeUrl pf (itemUrl it) \<in> S")
      case True
      then show ?thesis by simp
    next
      case unseen: False
      show ?thesis
      proof (cases "list_ex (\<lambda>r. normalizeUrl pf (URL r) = normalizeUrl pf (itemUrl it)) acc")
        case True
        then obtain r where "r \<in> set acc" "normalizeUrl pf (URL r) = normalizeUrl pf (itemUrl it)"
          by (auto simp: list_ex_iff)
        with sub have "normalizeUrl pf (itemUrl it) \<in> (\<lambda>r. normalizeUrl pf (URL r)) ` set acc'"
          by (metis imageI subsetD)
        then show ?thesis by simp
      next
        case nodup: False
        with unseen False have "\<not> keeps pf cfg it"
          by (simp add: passes_def keeps_def)
        then show ?thesis by simp
      qed
    qed
    with Cons.IH [OF run Cons.prems(2)] show ?thesis by simp
  qed
qed

lemma fetchAllResults_loop_bound:
  "fetchAllResults_loop fuel rm cfg k s allItems reqs = Some out \<Longrightarrow> maxAll cfg = Some t \<Longrightarrow>
   0 < t \<Longrightarrow> int (length allItems) \<le> t \<Longrightarrow>
   int (length (results out)) \<le> t
   \<and> (exitBy out = TargetReached \<longrightarrow> int (length (results out)) = t)"
proof (induction fuel arbitrary: k s allItems reqs)
  case 0
  then show ?case by (auto simp: reached_def split: if_splits)
next
  case (Suc fuel)
  show ?case
  proof (cases "reached (length allItems) (maxAll cfg)")
    case True
    with Suc.prems show ?thesis by (auto simp: reached_def)
  next
    case notyet: False
    show ?thesis
    proof (cases "rm k s")
      case Failure
      with notyet Suc.prems show ?thesis by auto
    next
      case (Data its np)
      show ?thesis
      proof (cases "noItems its \<or> reached (length (allItems @ the its)) (maxAll cfg)")
        case True
        with Data Suc.prems notyet show ?thesis
          by (auto simp: reached_def split: if_splits)
      next
        case False
        then have "int (length (allItems @ the its)) \<le> t"
          using Suc.prems(2) by (simp add: reached_def)
        with Suc.prems(1,2,3) notyet Data False
          Suc.IH [of "Suc k" _ "allItems @ the its" "reqs @ [s]"]
        show ?thesis
          by (auto split: if_splits hint.splits)
      qed
    qed
  qed
qed

lemma fetchNewResults_target_exit:
  assumes "fetchNewResults fuel rm pf cfg S = Some (Inr out)" "exitBy out = TargetReached"
  shows "\<not> belowTarget (length (results out)) (maxResults cfg)"
proof -
  from assms(1)
  have run: "fetchNewResults_loop fuel rm pf cfg S (length ([]::int list)) 1 [] [] = Some (Inr out)"
    by (simp add: fetchNewResults_def)
  from fetchNewResults_loop_exits [OF run]
  have "(exitBy out = TargetReached \<and> \<not> belowTarget (length (results out)) (maxResults cfg))
      \<or> endedByAnswer rm out"
    by simp
  with assms(2) show ?thesis
    by (auto simp: endedByAnswer_def split: response.splits hint.splits if_splits)
qed

lemma mainNewResults_accepted:
  assumes "fetchAllResults fuel rm cfg = Some raw" "avoidKeywords cfg = Some kws"
  shows "mainNewResults fuel rm pf cfg S =
     Some (Inr (map toResult (filter (\<lambda>it. itemUrl it \<notin> S \<and> keeps pf cfg it) (results raw))))"
  using assms(1) filterItems_keeps [OF assms(2), of pf "results raw" "[]"]
  by (simp add: mainNewResults_def accepted_filter accepted_def)

section \<open>Acceptance on a page and the target count\<close>

text \<open>
  C2, as amended. In the incremental loop of part_001 an item of a page is accepted exactly
  when its normalized URL is neither processed nor collected earlier in the run and the
  avoid-keyword and date tests let it pass; the scan of the page ends at once when an
  acceptance brings the accumulator to the target. Hence the records a page adds are
  records of items of that page whose normalized URL is not processed, the normalized URLs
  of the accumulator stay pairwise distinct, and while the target is not reached no item is
  left out: each item is processed, or fails the two tests, or has its normalized URL in
  the accumulator. Starting below the target, the accumulator never grows beyond it; when
  it reaches the target the rest of the page is not looked at, and while it is below the
  target the scan goes on. A run of the incremental fetch returns at most the target
  number of records, exactly that number when the target ended it. In googleSearch.js the
  target counts raw items: the fetch-all loop returns at most the target number of them,
  exactly that number when the target ended it (the last page is cut); only afterwards are
  the avoid-keyword and date tests applied and the processed URLs removed, by comparison
  of the URL strings as served, and an item repeating a URL of the run is not rejected.
\<close>

theorem page_acceptance_and_target:
  "processPage pf cfg S [] acc = Inr acc
   \<and> processPage pf cfg S (it # its) acc =
       (if raises pf cfg S acc it then Inl TypeError
        else if passes pf cfg S acc it
          then (if atTarget (Suc (length acc)) (maxResults cfg) then Inr (acc @ [toResult it])
                else processPage pf cfg S its (acc @ [toResult it]))
        else processPage pf cfg S its acc)
   \<and> (processPage pf cfg S its acc = Inr acc' \<longrightarrow>
      (\<exists>more. acc' = acc @ more \<and> set more \<subseteq> toResult ` set its
         \<and> (\<forall>r \<in> set more. normalizeUrl pf (URL r) \<notin> S))
      \<and> (distinct (map (\<lambda>r. normalizeUrl pf (URL r)) acc) \<longrightarrow>
           distinct (map (\<lambda>r. normalizeUrl pf (URL r)) acc'))
      \<and> (\<not> atTarget (length acc') (maxResults cfg) \<longrightarrow>
           (\<forall>x \<in> set its.
              normalizeUrl pf (itemUrl x) \<in> S \<or> \<not> keeps pf cfg x
              \<or> normalizeUrl pf (itemUrl x) \<in> (\<lambda>r. normalizeUrl pf (URL r)) ` set acc'))
      \<and> (maxResults cfg = Some t \<and> int (length acc) < t \<longrightarrow>
           int (length acc') \<le> t
           \<and> (t \<le> int (length acc') \<longrightarrow> processPage pf cfg S (its @ rest) acc = Inr acc')
           \<and> (int (length acc') < t \<longrightarrow>
                processPage pf cfg S (its @ rest) acc = processPage pf cfg S rest acc')))
   \<and> (fetchNewResults fuel rm pf cfg S = Some (Inr out) \<longrightarrow>
        distinct (map (\<lambda>r. normalizeUrl pf (URL r)) (results out))
        \<and> (\<forall>r \<in> set (results out). normalizeUrl pf (URL r) \<notin> S)
        \<and> (maxResults cfg = Some t \<and> 0 \<le> t \<longrightarrow>
             int (length (results out)) \<le> t
             \<and> (exitBy out = TargetReached \<longrightarrow> int (length (results out)) = t)))
   \<and> (fetchAllResults fuel rm cfg = Some raw \<longrightarrow>
        (maxResults cfg = Some t \<and> 0 < t \<longrightarrow>
           int (length (results raw)) \<le> t
           \<and> (exitBy raw = TargetReached \<longrightarrow> int (length (results raw)) = t))
        \<and> (avoidKeywords cfg = Some kws \<longrightarrow>
             mainNewResults fuel rm pf cfg S =
               Some (Inr (map toResult
                            (filter (\<lambda>x. itemUrl x \<notin> S \<and> keeps pf cfg x) (results raw))))))"
proof -
  have page: "(\<exists>more. acc' = acc @ more \<and> set more \<subseteq> toResult ` set its
         \<and> (\<forall>r \<in> set more. normalizeUrl pf (URL r) \<notin> S))
      \<and> (distinct (map (\<lambda>r. normalizeUrl pf (URL r)) acc) \<longrightarrow>
           distinct (map (\<lambda>r. normalizeUrl pf (URL r)) acc'))
      \<and> (\<not> atTarget (length acc') (maxResults cfg) \<longrightarrow>
           (\<forall>x \<in> set its.
              normalizeUrl pf (itemUrl x) \<in> S \<or> \<not> keeps pf cfg x
              \<or> normalizeUrl pf (itemUrl x) \<in> (\<lambda>r. normalizeUrl pf (URL r)) ` set acc'))
      \<and> (maxResults cfg = Some t \<and> int (length acc) < t \<longrightarrow>
           int (length acc') \<le> t
           \<and> (t \<le> int (length acc') \<longrightarrow> processPage pf cfg S (its @ rest) acc = Inr acc')
           \<and> (int (length acc') < t \<longrightarrow>
                processPage pf cfg S (its @ rest) acc = processPage pf cfg S rest acc'))"
    if pp: "processPage pf cfg S its acc = Inr acc'"
  proof -
    have "int (length acc') < t \<Longrightarrow> maxResults cfg = Some t \<Longrightarrow>
        \<not> atTarget (length acc') (maxResults cfg)"
      by (simp add: atTarget_def)
    then show ?thesis
      using processPage_extends [OF pp] processPage_distinct [OF pp]
        processPage_bound [OF pp, of t] processPage_stops [OF pp, of t rest]
        processPage_continues [OF pp, of rest] processPage_complete [OF pp]
      by blast
  qed
  have new: "distinct (map (\<lambda>r. normalizeUrl pf (URL r)) (results out))
        \<and> (\<forall>r \<in> set (results out). normalizeUrl pf (URL r) \<notin> S)
        \<and> (maxResults cfg = Some t \<and> 0 \<le> t \<longrightarrow>
             int (length (results out)) \<le> t
             \<and> (exitBy out = TargetReached \<longrightarrow> int (length (results out)) = t))"
    if run: "fetchNewResults fuel rm pf cfg S = Some (Inr out)"
  proof -
    have "int (length (results out)) = t"
      if "maxResults cfg = Some t" "0 \<le> t" "exitBy out = TargetReached"
      using fetchNewResults_bound [OF run that(1,2)] fetchNewResults_target_exit [OF run that(3)]
        that(1)
      by (simp add: belowTarget_def)
    then show ?thesis
      using fetchNewResults_distinct [OF run] fetchNewResults_unseen [OF run]
        fetchNewResults_bound [OF run, of t]
      by blast
  qed
  have all: "int (length (results raw)) \<le> t
           \<and> (exitBy raw = TargetReached \<longrightarrow> int (length (results raw)) = t)"
    if "fetchAllResults fuel rm cfg = Some raw" "maxResults cfg = Some t" "0 < t"
    using that fetchAllResults_loop_bound [of fuel rm cfg 0 1 "[]" "[]" raw t]
    by (simp add: fetchAllResults_def maxAll_def)
  have main: "mainNewResults fuel rm pf cfg S =
      Some (Inr (map toResult (filter (\<lambda>x. itemUrl x \<notin> S \<and> keeps pf cfg x) (results raw))))"
    if "fetchAllResults fuel rm cfg = Some raw" "avoidKeywords cfg = Some kws"
    using mainNewResults_accepted [OF that] .
  have step: "processPage pf cfg S (it # its) acc =
       (if raises pf cfg S acc it then Inl TypeError
        else if passes pf cfg S acc it
          then (if atTarget (Suc (length acc)) (maxResults cfg) then Inr (acc @ [toResult it])
                else processPage pf cfg S its (acc @ [toResult it]))
        else processPage pf cfg S its acc)"
    by (rule processPage_Cons)
  have nil: "processPage pf cfg S [] acc = Inr acc" by simp
  from nil step page new all main show ?thesis by blast
qed

lemma example_targetOne_page:
  "processPage examplePlatform targetOne seenUrls [shoutedItem, undatedItem] [] =
     Inr [toResult undatedItem]
   \<and> processPage examplePlatform targetOne seenUrls ([shoutedItem, undatedItem] @ [otherItem]) [] =
     Inr [toResult undatedItem]
   \<and> maxResults targetOne = Some 1"
  by code_simp

lemma example_target_ten_page:
  "processPage examplePlatform exampleConfig seenUrls [shoutedItem, undatedItem] [] =
     Inr [toResult undatedItem]
   \<and> processPage examplePlatform exampleConfig seenUrls [otherItem] [toResult undatedItem] =
     Inr [toResult undatedItem, toResult otherItem]
   \<and> maxResults exampleConfig = Some 10
   \<and> avoidKeywords targetOne = Some [''government clearance'']"
  by code_simp

lemma example_targetOne_runs:
  "fetchNewResults 1 mixedPage examplePlatform targetOne seenUrls =
     Some (Inr \<lparr>results = [toResult undatedItem], requests = [1], exitBy = TargetReached\<rparr>)
   \<and> fetchAllResults 1 mixedPage targetOne =
     Some \<lparr>results = [shoutedItem], requests = [1], exitBy = TargetReached\<rparr>"
  by code_simp

lemma example_targetOne_main:
  "map toResult (filter (\<lambda>x. itemUrl x \<notin> seenUrls \<and> keeps examplePlatform targetOne x)
     [shoutedItem]) = [toResult shoutedItem]"
  by code_simp

text \<open>
  A page of a processed, a new and another new item with target 1: the processed one is
  skipped, the first new one is accepted, and the third item is not looked at; with target
  10 the scan goes on to the third. In googleSearch.js target 1 keeps the first raw item.
\<close>

theorem page_acceptance_and_target_witness:
  "processPage examplePlatform targetOne seenUrls [shoutedItem, undatedItem] [] =
     Inr [toResult undatedItem]
   \<and> maxResults targetOne = Some 1
   \<and> int (length ([]::result list)) < 1
   \<and> (1::int) \<le> int (length [toResult undatedItem])
   \<and> processPage examplePlatform targetOne seenUrls ([shoutedItem, undatedItem] @ [otherItem]) [] =
     Inr [toResult undatedItem]
   \<and> processPage examplePlatform exampleConfig seenUrls [shoutedItem, undatedItem] [] =
     Inr [toResult undatedItem]
   \<and> maxResults exampleConfig = Some 10
   \<and> int (length [toResult undatedItem]) < 10
   \<and> processPage examplePlatform exampleConfig seenUrls ([shoutedItem, undatedItem] @ [otherItem]) [] =
     Inr [toResult undatedItem, toResult otherItem]
   \<and> fetchNewResults 1 mixedPage examplePlatform targetOne seenUrls =
     Some (Inr \<lparr>results = [toResult undatedItem], requests = [1], exitBy = TargetReached\<rparr>)
   \<and> normalizeUrl examplePlatform (URL (toResult undatedItem)) \<notin> seenUrls
   \<and> fetchAllResults 1 mixedPage targetOne =
     Some \<lparr>results = [shoutedItem], requests = [1], exitBy = TargetReached\<rparr>
   \<and> int (length [shoutedItem]) = 1
   \<and> mainNewResults 1 mixedPage examplePlatform targetOne seenUrls =
     Some (Inr [toResult shoutedItem])"
  using
    page_acceptance_and_target [where pf = examplePlatform and cfg = targetOne and S = seenUrls
      and its = "[shoutedItem, undatedItem]" and acc = "[]" and acc' = "[toResult undatedItem]"
      and t = 1 and rest = "[otherItem]" and fuel = 1 and rm = mixedPage
      and out = "\<lparr>results = [toResult undatedItem], requests = [1], exitBy = TargetReached\<rparr>"
      and raw = "\<lparr>results = [shoutedItem], requests = [1], exitBy = TargetReached\<rparr>"
      and kws = "[''government clearance'']"]
    page_acceptance_and_target [where pf = examplePlatform and cfg = exampleConfig and S = seenUrls
      and its = "[shoutedItem, undatedItem]" and acc = "[]" and acc' = "[toResult undatedItem]"
      and t = 10 and rest = "[otherItem]"]
    example_targetOne_page example_target_ten_page example_targetOne_runs example_targetOne_main
  by simp

lemma example_seenFirstPage:
  "mainNewResults 1 seenFirstPage examplePlatform targetOne seenUrls = Some (Inr [])"
  "fetchNewResults 1 seenFirstPage examplePlatform targetOne seenUrls =
     Some (Inr \<lparr>results = [toResult undatedItem], requests = [1], exitBy = TargetReached\<rparr>)"
  "mainNewResults 1 repeatedPage examplePlatform exampleConfig {} =
     Some (Inr [toResult undatedItem, toResult retitledItem])"
  "normalizeUrl examplePlatform (URL (toResult retitledItem))
     = normalizeUrl examplePlatform (URL (toResult undatedItem))"
  by code_simp+

text \<open>
  As the specification states it, the property fails on googleSearch.js. With target 1 and
  a page of a processed item followed by two new ones, the one raw item the target lets in
  is the processed one, so nothing is accepted although the page has new items and no
  record was accepted yet. With nothing processed and a page that serves one URL twice,
  both items are accepted.
\<close>

theorem googleSearch_target_counts_raw_items:
  "mainNewResults 1 seenFirstPage examplePlatform targetOne seenUrls = Some (Inr [])
   \<and> mainNewResults 1 repeatedPage examplePlatform exampleConfig {} =
       Some (Inr [toResult undatedItem, toResult retitledItem])
   \<and> normalizeUrl examplePlatform (URL (toResult retitledItem))
       = normalizeUrl examplePlatform (URL (toResult undatedItem))"
  using example_seenFirstPage by simp

section \<open>The two orders of filtering\<close>

lemma accepted_append:
  "accepted pf cfg S (xs @ ys) = accepted pf cfg S xs @ accepted pf cfg S ys"
  by (simp add: accepted_def)

lemma length_accepted: "length (accepted pf cfg S its) \<le> length its"
  by (simp add: accepted_def)

lemma distinct_map_head:
  assumes "distinct (map f (x # xs))" "y \<in> set xs"
  shows "f y \<noteq> f x"
proof
  assume e: "f y = f x"
  from assms(1) have "f x \<notin> f ` set xs" by simp
  moreover from assms(2) have "f y \<in> f ` set xs" by (rule imageI)
  ultimately show False using e by simp
qed

lemma processPage_accepted:
  "avoidKeywords cfg = Some kws \<Longrightarrow> maxResults cfg = Some t \<Longrightarrow>
   \<forall>it \<in> set its. (normalizeUrl pf (itemUrl it) \<in> S) = (itemUrl it \<in> S) \<Longrightarrow>
   distinct (map (\<lambda>it. normalizeUrl pf (itemUrl it)) its) \<Longrightarrow>
   \<forall>it \<in> set its. \<forall>r \<in> set acc. normalizeUrl pf (URL r) \<noteq> normalizeUrl pf (itemUrl it) \<Longrightarrow>
   int (length acc) + int (length its) \<le> t \<Longrightarrow>
   processPage pf cfg S its acc = Inr (acc @ accepted pf cfg S its)"
proof (induction its arbitrary: acc)
  case Nil
  then show ?case by (simp add: accepted_def)
next
  case (Cons it its)
  have noraise: "\<not> raises pf cfg S acc it"
    using Cons.prems(1) by (simp add: raises_def)
  have nodup: "\<not> list_ex (\<lambda>r. normalizeUrl pf (URL r) = normalizeUrl pf (itemUrl it)) acc"
    using Cons.prems(5) by (simp add: list_ex_iff)
  have "(normalizeUrl pf (itemUrl it) \<in> S) = (itemUrl it \<in> S)"
    using Cons.prems(3) by simp
  with nodup have pass: "passes pf cfg S acc it \<longleftrightarrow> itemUrl it \<notin> S \<and> keeps pf cfg it"
    by (simp add: passes_def keeps_def)
  show ?case
  proof (cases "itemUrl it \<notin> S \<and> keeps pf cfg it")
    case False
    have "processPage pf cfg S its acc = Inr (acc @ accepted pf cfg S its)"
      using Cons.prems by (intro Cons.IH) auto
    with False noraise pass show ?thesis
      by (auto simp: processPage_Cons accepted_def)
  next
    case True
    show ?thesis
    proof (cases "atTarget (Suc (length acc)) (maxResults cfg)")
      case True
      with Cons.prems(2) have "t \<le> 1 + int (length acc)" by (simp add: atTarget_def)
      moreover have "int (length acc) + (1 + int (length its)) \<le> t"
        using Cons.prems(6) by simp
      ultimately have "length its = 0" by linarith
      then have "its = []" by simp
      with True \<open>itemUrl it \<notin> S \<and> keeps pf cfg it\<close> noraise pass show ?thesis
        by (simp add: processPage_Cons accepted_def)
    next
      case False
      have "\<forall>x \<in> set its. normalizeUrl pf (itemUrl x) \<noteq> normalizeUrl pf (itemUrl it)"
        using distinct_map_head [OF Cons.prems(4)] by blast
      then have "\<forall>x \<in> set its. \<forall>r \<in> set (acc @ [toResult it]).
          normalizeUrl pf (URL r) \<noteq> normalizeUrl pf (itemUrl x)"
        using Cons.prems(5) by (auto simp: toResult_def)
      then have "processPage pf cfg S its (acc @ [toResult it])
          = Inr ((acc @ [toResult it]) @ accepted pf cfg S its)"
        using Cons.prems by (intro Cons.IH) auto
      with False \<open>itemUrl it \<notin> S \<and> keeps pf cfg it\<close> noraise pass show ?thesis
        by (simp add: processPage_Cons accepted_def)
    qed
  qed
qed

lemma fetchAllResults_loop_extends:
  "fetchAllResults_loop fuel rm cfg k s allItems reqs = Some raw \<Longrightarrow> maxAll cfg = None \<Longrightarrow>
   \<exists>more. results raw = allItems @ more"
proof (induction fuel arbitrary: k s allItems reqs)
  case 0
  then show ?case by (simp add: reached_def)
next
  case (Suc fuel)
  have step: "\<exists>more. results raw = allItems @ more"
    if "fetchAllResults_loop fuel rm cfg k' n (allItems @ its) reqs' = Some raw"
    for k' n its reqs'
    using Suc.IH [OF that Suc.prems(2)] by auto
  from Suc.prems show ?case
    by (auto simp: reached_def split: response.splits if_splits hint.splits dest: step)
qed

lemma prefix_same_length:
  assumes "ys = xs @ zs" "int (length ys) \<le> t" "t \<le> int (length xs)"
  shows "ys = xs"
proof -
  from assms(1) have "int (length ys) = int (length xs) + int (length zs)" by simp
  with assms(2,3) have "length zs = 0" by linarith
  with assms(1) show ?thesis by simp
qed

text \<open>One iteration of the fetch-all loop without a target.\<close>

lemma fetchAllResults_loop_unbounded_step:
  assumes "maxAll cfg = None"
    and "fetchAllResults_loop (Suc fuel) rm cfg k s allItems reqs = Some raw"
  shows "(rm k s = Failure \<and> results raw = allItems)
     \<or> (\<exists>its np. rm k s = Data its np \<and> noItems its \<and> results raw = allItems)
     \<or> (\<exists>its np. rm k s = Data its np \<and> \<not> noItems its
           \<and> results raw = allItems @ the its
           \<and> (nextStart np = NoHint \<or> nextStart np = BadHint
                \<or> (\<exists>n. nextStart np = Hint n \<and> n > 91)))
     \<or> (\<exists>its np n. rm k s = Data its np \<and> \<not> noItems its \<and> nextStart np = Hint n
           \<and> \<not> n > 91
           \<and> fetchAllResults_loop fuel rm cfg (Suc k) n (allItems @ the its) (reqs @ [s])
               = Some raw)"
  using assms
  by (auto simp: reached_def split: response.splits if_splits hint.splits)

lemma fetchAllResults_loop_untruncated:
  "fetchAllResults_loop fuel rm cfgU k s allItems reqs = Some raw \<Longrightarrow> maxAll cfgU = None \<Longrightarrow>
   maxAll cfg = Some t \<Longrightarrow> int (length (results raw)) \<le> t \<Longrightarrow>
   \<exists>out. fetchAllResults_loop fuel rm cfg k s allItems reqs = Some out
     \<and> results out = results raw"
proof (induction fuel arbitrary: k s allItems reqs)
  case 0
  then show ?case by (simp add: reached_def)
next
  case (Suc fuel)
  from fetchAllResults_loop_extends [OF Suc.prems(1,2)] obtain zs where
    zs: "results raw = allItems @ zs" by blast
  show ?case
  proof (cases "reached (length allItems) (maxAll cfg)")
    case True
    with Suc.prems(3) have "t \<le> int (length allItems)" by (simp add: reached_def)
    with zs Suc.prems(4) have "results raw = allItems" by (rule prefix_same_length)
    with True show ?thesis by simp
  next
    case below: False
    from fetchAllResults_loop_unbounded_step [OF Suc.prems(2,1)]
    consider
      (fail) "rm k s = Failure" "results raw = allItems"
    | (empty) its np where "rm k s = Data its np" "noItems its" "results raw = allItems"
    | (last) its np where "rm k s = Data its np" "\<not> noItems its"
        "results raw = allItems @ the its"
        "nextStart np = NoHint \<or> nextStart np = BadHint \<or> (\<exists>n. nextStart np = Hint n \<and> n > 91)"
    | (go) its np n where "rm k s = Data its np" "\<not> noItems its" "nextStart np = Hint n"
        "\<not> n > 91"
        "fetchAllResults_loop fuel rm cfgU (Suc k) n (allItems @ the its) (reqs @ [s]) = Some raw"
      by blast
    then show ?thesis
    proof cases
      case fail
      with below show ?thesis by simp
    next
      case empty
      with below show ?thesis by simp
    next
      case last
      show ?thesis
      proof (cases "reached (length (allItems @ the its)) (maxAll cfg)")
        case True
        from last(3) Suc.prems(4) have "int (length (allItems @ the its)) \<le> t" by simp
        then have "take (nat t) (allItems @ the its) = allItems @ the its" by simp
        with True below last Suc.prems(3) show ?thesis by simp
      next
        case False
        with below last show ?thesis by auto
      qed
    next
      case go
      from fetchAllResults_loop_extends [OF go(5) Suc.prems(2)] obtain rest where
        rest: "results raw = (allItems @ the its) @ rest" by blast
      show ?thesis
      proof (cases "reached (length (allItems @ the its)) (maxAll cfg)")
        case True
        with Suc.prems(3) have "t \<le> int (length (allItems @ the its))"
          by (simp add: reached_def)
        with rest Suc.prems(4) have eq: "results raw = allItems @ the its"
          by (rule prefix_same_length)
        with Suc.prems(4) have "take (nat t) (allItems @ the its) = allItems @ the its" by simp
        with True below go eq Suc.prems(3) show ?thesis by simp
      next
        case False
        from Suc.IH [OF go(5) Suc.prems(2,3,4)] False below go show ?thesis by simp
      qed
    qed
  qed
qed

lemma processPage_accepted_prefix:
  assumes kws: "avoidKeywords cfg = Some kws" and t: "maxResults cfg = Some t"
    and raw: "raw = (allItems @ its) @ rest"
    and len: "int (length raw) \<le> t"
    and dist: "distinct (map (\<lambda>it. normalizeUrl pf (itemUrl it)) raw)"
    and same: "\<forall>it \<in> set raw. (normalizeUrl pf (itemUrl it) \<in> S) = (itemUrl it \<in> S)"
  shows "processPage pf cfg S its (accepted pf cfg S allItems)
     = Inr (accepted pf cfg S (allItems @ its))"
proof -
  have 1: "\<forall>it \<in> set its. (normalizeUrl pf (itemUrl it) \<in> S) = (itemUrl it \<in> S)"
    using same raw by simp
  from dist have "distinct (map (\<lambda>it. normalizeUrl pf (itemUrl it)) (allItems @ its)
      @ map (\<lambda>it. normalizeUrl pf (itemUrl it)) rest)"
    unfolding raw map_append .
  then have "distinct (map (\<lambda>it. normalizeUrl pf (itemUrl it)) (allItems @ its))"
    unfolding distinct_append by (rule conjunct1)
  then have d: "distinct (map (\<lambda>it. normalizeUrl pf (itemUrl it)) allItems
      @ map (\<lambda>it. normalizeUrl pf (itemUrl it)) its)"
    unfolding map_append .
  then have 2: "distinct (map (\<lambda>it. normalizeUrl pf (itemUrl it)) its)"
    by simp
  have 3: "\<forall>it \<in> set its. \<forall>r \<in> set (accepted pf cfg S allItems).
      normalizeUrl pf (URL r) \<noteq> normalizeUrl pf (itemUrl it)"
  proof (intro ballI notI)
    fix it r
    assume it: "it \<in> set its" and r: "r \<in> set (accepted pf cfg S allItems)"
      and e: "normalizeUrl pf (URL r) = normalizeUrl pf (itemUrl it)"
    from r obtain x where x: "x \<in> set allItems" "r = toResult x"
      by (auto simp: accepted_def)
    then have "normalizeUrl pf (itemUrl x) = normalizeUrl pf (itemUrl it)"
      using e by (simp add: toResult_def)
    moreover have "normalizeUrl pf (itemUrl x)
        \<in> set (map (\<lambda>it. normalizeUrl pf (itemUrl it)) allItems)"
      using x(1) by simp
    moreover have "normalizeUrl pf (itemUrl it) \<in> set (map (\<lambda>it. normalizeUrl pf (itemUrl it)) its)"
      using it by simp
    ultimately show False
      using d unfolding distinct_append by (metis IntI empty_iff)
  qed
  have "int (length (accepted pf cfg S allItems)) \<le> int (length allItems)"
    using length_accepted [of pf cfg S allItems] by simp
  with len raw have 4: "int (length (accepted pf cfg S allItems)) + int (length its) \<le> t"
    by simp
  show ?thesis
    using processPage_accepted [OF kws t 1 2 3 4] by (simp add: accepted_append)
qed

lemma fetchNewResults_loop_accepted:
  "fetchAllResults_loop fuel rm cfgU k s allItems reqs = Some raw \<Longrightarrow> maxAll cfgU = None \<Longrightarrow>
   wellFormed rm \<Longrightarrow> avoidKeywords cfg = Some kws \<Longrightarrow> maxResults cfg = Some t \<Longrightarrow>
   int (length (results raw)) \<le> t \<Longrightarrow>
   distinct (map (\<lambda>it. normalizeUrl pf (itemUrl it)) (results raw)) \<Longrightarrow>
   \<forall>it \<in> set (results raw). (normalizeUrl pf (itemUrl it) \<in> S) = (itemUrl it \<in> S) \<Longrightarrow>
   \<exists>out. fetchNewResults_loop fuel rm pf cfg S k s (accepted pf cfg S allItems) reqs
           = Some (Inr out)
     \<and> results out = accepted pf cfg S (results raw)"
proof (induction fuel arbitrary: k s allItems reqs)
  case 0
  then show ?case by (simp add: reached_def)
next
  case (Suc fuel)
  let ?acc = "accepted pf cfg S allItems"
  from fetchAllResults_loop_extends [OF Suc.prems(1,2)] obtain zs where
    zs: "results raw = allItems @ zs" by blast
  show ?case
  proof (cases "belowTarget (length ?acc) (maxResults cfg)")
    case False
    with Suc.prems(5) have "t \<le> int (length ?acc)" by (simp add: belowTarget_def)
    moreover have "int (length ?acc) \<le> int (length allItems)"
      using length_accepted [of pf cfg S allItems] by simp
    ultimately have "t \<le> int (length allItems)" by simp
    with zs Suc.prems(6) have "results raw = allItems" by (rule prefix_same_length)
    with False show ?thesis by simp
  next
    case below: True
    have page: "processPage pf cfg S (the its) ?acc
        = Inr (accepted pf cfg S (allItems @ the its))"
      if "results raw = (allItems @ the its) @ rest" for its rest
      using processPage_accepted_prefix [OF Suc.prems(4,5) that Suc.prems(6,7,8)] .
    have full: "results raw = allItems @ the its"
      if "results raw = (allItems @ the its) @ rest"
        "atTarget (length (accepted pf cfg S (allItems @ the its))) (maxResults cfg)"
      for its rest
    proof -
      from that(2) Suc.prems(5)
      have "t \<le> int (length (accepted pf cfg S (allItems @ the its)))"
        by (simp add: atTarget_def)
      moreover have "int (length (accepted pf cfg S (allItems @ the its)))
          \<le> int (length (allItems @ the its))"
        using length_accepted [of pf cfg S "allItems @ the its"] by simp
      ultimately have "t \<le> int (length (allItems @ the its))" by simp
      with that(1) Suc.prems(6) show ?thesis by (rule prefix_same_length)
    qed
    from fetchAllResults_loop_unbounded_step [OF Suc.prems(2,1)]
    consider
      (fail) "rm k s = Failure" "results raw = allItems"
    | (empty) its np where "rm k s = Data its np" "noItems its" "results raw = allItems"
    | (last) its np where "rm k s = Data its np" "\<not> noItems its"
        "results raw = allItems @ the its"
        "nextStart np = NoHint \<or> nextStart np = BadHint \<or> (\<exists>n. nextStart np = Hint n \<and> n > 91)"
    | (go) its np n where "rm k s = Data its np" "\<not> noItems its" "nextStart np = Hint n"
        "\<not> n > 91"
        "fetchAllResults_loop fuel rm cfgU (Suc k) n (allItems @ the its) (reqs @ [s]) = Some raw"
      by blast
    then show ?thesis
    proof cases
      case fail
      with below show ?thesis by simp
    next
      case empty
      with below show ?thesis by simp
    next
      case last
      from last(3) have "results raw = (allItems @ the its) @ []" by simp
      from page [OF this] have pp: "processPage pf cfg S (the its) ?acc
          = Inr (accepted pf cfg S (results raw))"
        using last(3) by simp
      from Suc.prems(3) last(1) have "nextStart np \<noteq> BadHint"
        unfolding wellFormed_def by blast
      with last(4) have "nextStart np = NoHint \<or> (\<exists>n. nextStart np = Hint n \<and> n > 91)"
        by blast
      with below last(1,2) pp show ?thesis by auto
    next
      case go
      from fetchAllResults_loop_extends [OF go(5) Suc.prems(2)] obtain rest where
        rest: "results raw = (allItems @ the its) @ rest" by blast
      note pp = page [OF rest]
      show ?thesis
      proof (cases "atTarget (length (accepted pf cfg S (allItems @ the its))) (maxResults cfg)")
        case True
        from full [OF rest True] have "results raw = allItems @ the its" .
        with True below go(1,2) pp show ?thesis by simp
      next
        case False
        from Suc.IH [OF go(5) Suc.prems(2,3,4,5,6,7,8)] obtain out where
          "fetchNewResults_loop fuel rm pf cfg S (Suc k) n
             (accepted pf cfg S (allItems @ the its)) (reqs @ [s]) = Some (Inr out)"
          "results out = accepted pf cfg S (results raw)"
          by blast
        with False below go(1,2,3,4) pp show ?thesis by simp
      qed
    qed
  qed
qed

lemma fetchAllResults_loop_maxAll:
  "maxAll c1 = maxAll c2 \<Longrightarrow>
   fetchAllResults_loop fuel rm c1 k s allItems reqs
     = fetchAllResults_loop fuel rm c2 k s allItems reqs"
  by (induction fuel arbitrary: k s allItems reqs)
     (simp_all split: response.splits hint.splits)

lemma fetchAllResults_untruncated:
  assumes raw: "fetchAllResults fuel rm (withoutTarget cfg) = Some raw"
    and t: "maxResults cfg = Some t" and len: "int (length (results raw)) \<le> t"
  shows "\<exists>out. fetchAllResults fuel rm cfg = Some out \<and> results out = results raw"
proof (cases "t = 0")
  case True
  with t have "maxAll cfg = maxAll (withoutTarget cfg)"
    by (simp add: maxAll_def withoutTarget_def)
  from fetchAllResults_loop_maxAll [OF this] raw show ?thesis
    by (simp add: fetchAllResults_def)
next
  case False
  with t have "maxAll cfg = Some t" by (simp add: maxAll_def)
  moreover have "maxAll (withoutTarget cfg) = None"
    by (simp add: maxAll_def withoutTarget_def)
  ultimately show ?thesis
    using raw len fetchAllResults_loop_untruncated
      [of fuel rm "withoutTarget cfg" 0 1 "[]" "[]" raw cfg t]
    by (simp add: fetchAllResults_def)
qed

text \<open>
  C6, as amended. Let the endpoint be well-formed and serve, to a fetch without target,
  the items \<open>raw\<close>; let the target be at least their number, the avoid-keyword list be
  present, the normalized URLs of the served items be pairwise distinct, and each served URL
  be in the processed set exactly when its normalized form is. Then the incremental variant
  of part_001 and the fetch-all variant of googleSearch.js accept the same records, in the
  same order.
\<close>

theorem filter_orders_agree:
  assumes "fetchAllResults fuel rm (withoutTarget cfg) = Some raw"
    and "maxResults cfg = Some t" and "int (length (results raw)) \<le> t"
    and "wellFormed rm" and "avoidKeywords cfg = Some kws"
    and "distinct (map (\<lambda>it. normalizeUrl pf (itemUrl it)) (results raw))"
    and "\<forall>it \<in> set (results raw). (normalizeUrl pf (itemUrl it) \<in> S) = (itemUrl it \<in> S)"
  shows "\<exists>out. fetchNewResults fuel rm pf cfg S = Some (Inr out)
     \<and> mainNewResults fuel rm pf cfg S = Some (Inr (results out))"
proof -
  have unb: "maxAll (withoutTarget cfg) = None"
    by (simp add: maxAll_def withoutTarget_def)
  from assms(1) have run: "fetchAllResults_loop fuel rm (withoutTarget cfg) 0 1 [] [] = Some raw"
    by (simp add: fetchAllResults_def)
  from fetchNewResults_loop_accepted [OF run unb assms(4,5,2,3,6,7)]
  obtain out where out: "fetchNewResults fuel rm pf cfg S = Some (Inr out)"
    "results out = accepted pf cfg S (results raw)"
    by (auto simp: fetchNewResults_def accepted_def)
  from fetchAllResults_untruncated [OF assms(1,2,3)] obtain outAll where
    outAll: "fetchAllResults fuel rm cfg = Some outAll" "results outAll = results raw"
    by blast
  have "mainNewResults fuel rm pf cfg S = Some (Inr (accepted pf cfg S (results raw)))"
    using outAll filterItems_keeps [OF assms(5), of pf "results raw" "[]"]
    by (simp add: mainNewResults_def accepted_filter)
  with out show ?thesis by simp
qed

lemma plainPage_wellFormed: "wellFormed plainPage"
  by (simp add: wellFormed_def plainPage_def nextStart_def)

lemma example_plainPage_raw:
  "fetchAllResults 1 plainPage (withoutTarget exampleConfig) =
     Some \<lparr>results = [oldItem, undatedItem, otherItem], requests = [1], exitBy = NoNextPage\<rparr>"
  by code_simp

lemma example_plainPage_urls:
  "distinct (map (\<lambda>it. normalizeUrl examplePlatform (itemUrl it))
     [oldItem, undatedItem, otherItem])"
  "\<forall>it \<in> set [oldItem, undatedItem, otherItem].
     (normalizeUrl examplePlatform (itemUrl it) \<in> seenUrls) = (itemUrl it \<in> seenUrls)"
  by code_simp+

lemma example_plainPage_runs:
  "fetchNewResults 1 plainPage examplePlatform exampleConfig seenUrls =
     Some (Inr \<lparr>results = [toResult undatedItem, toResult otherItem], requests = [1],
                 exitBy = NoNextPage\<rparr>)"
  "mainNewResults 1 plainPage examplePlatform exampleConfig seenUrls =
     Some (Inr [toResult undatedItem, toResult otherItem])"
  by code_simp+

text \<open>
  A page with a processed item in normalized form and two new items, target 10: both
  variants accept the two new items.
\<close>

theorem filter_orders_agree_witness:
  "fetchAllResults 1 plainPage (withoutTarget exampleConfig) =
     Some \<lparr>results = [oldItem, undatedItem, otherItem], requests = [1], exitBy = NoNextPage\<rparr>
   \<and> maxResults exampleConfig = Some 10
   \<and> wellFormed plainPage
   \<and> avoidKeywords exampleConfig = Some [''government clearance'']
   \<and> distinct (map (\<lambda>it. normalizeUrl examplePlatform (itemUrl it)) [oldItem, undatedItem, otherItem])
   \<and> (\<exists>out. fetchNewResults 1 plainPage examplePlatform exampleConfig seenUrls = Some (Inr out)
         \<and> mainNewResults 1 plainPage examplePlatform exampleConfig seenUrls
             = Some (Inr (results out)))
   \<and> mainNewResults 1 plainPage examplePlatform exampleConfig seenUrls =
       Some (Inr [toResult undatedItem, toResult otherItem])"
proof -
  have cfg: "maxResults exampleConfig = Some 10"
    "avoidKeywords exampleConfig = Some [''government clearance'']"
    by (simp_all add: exampleConfig_def)
  have len: "int (length (results
      \<lparr>results = [oldItem, undatedItem, otherItem], requests = [1::int],
       exitBy = NoNextPage\<rparr>)) \<le> 10"
    by simp
  have d: "distinct (map (\<lambda>it. normalizeUrl examplePlatform (itemUrl it)) (results
      \<lparr>results = [oldItem, undatedItem, otherItem], requests = [1::int],
       exitBy = NoNextPage\<rparr>))"
    using example_plainPage_urls(1) by simp
  have s: "\<forall>it \<in> set (results
      \<lparr>results = [oldItem, undatedItem, otherItem], requests = [1::int],
       exitBy = NoNextPage\<rparr>).
      (normalizeUrl examplePlatform (itemUrl it) \<in> seenUrls) = (itemUrl it \<in> seenUrls)"
    using example_plainPage_urls(2) by simp
  from filter_orders_agree
    [OF example_plainPage_raw cfg(1) len plainPage_wellFormed cfg(2) d s]
  show ?thesis
    using example_plainPage_raw cfg plainPage_wellFormed example_plainPage_urls(1)
      example_plainPage_runs(2)
    by blast
qed

lemma example_repeatedPage:
  "fetchAllResults 1 repeatedPage (withoutTarget exampleConfig) =
     Some \<lparr>results = [undatedItem, retitledItem], requests = [1], exitBy = NoNextPage\<rparr>"
  "mainNewResults 1 repeatedPage examplePlatform exampleConfig {} =
     Some (Inr [toResult undatedItem, toResult retitledItem])"
  "fetchNewResults 1 repeatedPage examplePlatform exampleConfig {} =
     Some (Inr \<lparr>results = [toResult undatedItem], requests = [1], exitBy = NoNextPage\<rparr>)"
  "toResult retitledItem \<notin> set [toResult undatedItem]"
  by code_simp+

lemma example_mixedPage_raw:
  "fetchAllResults 1 mixedPage (withoutTarget exampleConfig) =
     Some \<lparr>results = [shoutedItem, undatedItem, otherItem], requests = [1],
           exitBy = NoNextPage\<rparr>"
  "toResult shoutedItem \<notin> set [toResult undatedItem, toResult otherItem]"
  by code_simp+

text \<open>
  As the specification states it, the property fails. With target 10 and three items served, googleSearch.js
  accepts the item whose URL differs from a processed one in case and outer blanks, and
  part_001 rejects it; with two items served under one URL and nothing processed,
  googleSearch.js accepts both and part_001 the first only.
\<close>

theorem filter_orders_differ:
  "fetchAllResults 1 mixedPage (withoutTarget exampleConfig) =
     Some \<lparr>results = [shoutedItem, undatedItem, otherItem], requests = [1],
           exitBy = NoNextPage\<rparr>
   \<and> maxResults exampleConfig = Some 10
   \<and> mainNewResults 1 mixedPage examplePlatform exampleConfig seenUrls =
       Some (Inr [toResult shoutedItem, toResult undatedItem, toResult otherItem])
   \<and> fetchNewResults 1 mixedPage examplePlatform exampleConfig seenUrls =
       Some (Inr \<lparr>results = [toResult undatedItem, toResult otherItem], requests = [1],
                   exitBy = NoNextPage\<rparr>)
   \<and> toResult shoutedItem \<notin> set [toResult undatedItem, toResult otherItem]
   \<and> fetchAllResults 1 repeatedPage (withoutTarget exampleConfig) =
       Some \<lparr>results = [undatedItem, retitledItem], requests = [1], exitBy = NoNextPage\<rparr>
   \<and> mainNewResults 1 repeatedPage examplePlatform exampleConfig {} =
       Some (Inr [toResult undatedItem, toResult retitledItem])
   \<and> fetchNewResults 1 repeatedPage examplePlatform exampleConfig {} =
       Some (Inr \<lparr>results = [toResult undatedItem], requests = [1], exitBy = NoNextPage\<rparr>)
   \<and> toResult retitledItem \<notin> set [toResult undatedItem]"
  using example_mixedPage_raw example_mixedPage_main example_mixedPage_new
    example_repeatedPage
  by (simp add: exampleConfig_def)

end
